theory Spec2Isabelle
  imports
    Complex_Main
    "HOL-Library.Word"
    "HOL-Library.Char_ord"
    "HOL-Library.List_Lexorder"
    "HOL-Library.Product_Lexorder"
    "HOL-Library.Multiset"
begin

section \<open>Values\<close>

text \<open>
  Mingo evaluates MongoDB-style queries and pipelines over JavaScript values. This
  theory embeds the functions of \<^verbatim>\<open>mingo-es5x.js\<close> (first source file, ES6) and, where
  the two differ, of \<^verbatim>\<open>mingo.js\<close> (second source file, ES5).

  Numbers are IEEE doubles in the source. Here a number is \<open>NaN\<close>, an infinity, or a
  finite real; the result of an arithmetic operation is rounded by a function of the
  host (see below), and the sign of zero is not modelled. A string is a list of
  code units below 256. An object is the list of its own enumerable properties in the
  order in which \<^verbatim>\<open>Object.keys\<close> and \<^verbatim>\<open>for ... in\<close> list them; members
  inherited from a prototype are not modelled. A date is its time value in milliseconds
  (\<open>None\<close> for an invalid date), a regular expression its source and flags, and a
  function an opaque identity.
\<close>

datatype jsnum = NaN | PInf | NInf | Fin real

datatype val =
    Undefined
  | Null
  | Bool bool
  | Num jsnum
  | Str string
  | Arr "val list"
  | Obj "(string \<times> val) list"
  | Date "int option"
  | RegExp string string
  | Func nat

text \<open>
  Every \<^verbatim>\<open>throw\<close> is a value. \<open>Error\<close> carries the message of \<^verbatim>\<open>err(s)\<close>
  (also raised by \<^verbatim>\<open>assert\<close>); \<open>TypeError\<close> is the error the JavaScript runtime raises
  on a property access on \<^verbatim>\<open>undefined\<close>/\<^verbatim>\<open>null\<close> or a call of a non-function;
  \<open>SyntaxError\<close> is raised by \<^verbatim>\<open>new RegExp\<close> on a malformed pattern. \<open>Fuel\<close> is
  not an exception of the source: it is the outcome of an evaluation that did not finish
  within the number of nested calls or loop iterations it was given.
\<close>

datatype error = Error string | TypeError | SyntaxError | Fuel

type_synonym 'a result = "error + 'a"

text \<open>
  The conversions of the JavaScript runtime that the library relies on but that are
  defined outside the repository are parameters of the model. So is the arithmetic of
  doubles: \<open>RoundNumber\<close> gives the double that stands for the exact real result of
  \<^verbatim>\<open>+\<close>, \<^verbatim>\<open>-\<close> or \<^verbatim>\<open>/\<close> (the nearest double, an infinity on overflow), and
  \<open>MathPow\<close> and \<open>MathSqrt\<close> are \<^verbatim>\<open>Math.pow\<close> and \<^verbatim>\<open>Math.sqrt\<close>, whose
  results the language leaves to the implementation.
\<close>

record host =
  StringToNumber :: "string \<Rightarrow> jsnum"
  NumberToString :: "real \<Rightarrow> string"
  DateToString :: "int option \<Rightarrow> string"
  DateToJSON :: "int option \<Rightarrow> string"
  FuncToString :: "nat \<Rightarrow> string"
  RegExpSyntaxOk :: "string \<Rightarrow> bool"
  RoundNumber :: "real \<Rightarrow> jsnum"
  MathPow :: "jsnum \<Rightarrow> jsnum \<Rightarrow> jsnum"
  MathSqrt :: "jsnum \<Rightarrow> jsnum"

subsection \<open>Type tests\<close>

text \<open>\<^verbatim>\<open>type(value)\<close>: the lower-cased class tag of \<^verbatim>\<open>Object.prototype.toString\<close>.\<close>

fun type :: "val \<Rightarrow> string" where
  "type Undefined = ''undefined''"
| "type Null = ''null''"
| "type (Bool _) = ''boolean''"
| "type (Num _) = ''number''"
| "type (Str _) = ''string''"
| "type (Arr _) = ''array''"
| "type (Obj _) = ''object''"
| "type (Date _) = ''date''"
| "type (RegExp _ _) = ''regexp''"
| "type (Func _) = ''function''"

definition isType :: "val \<Rightarrow> string \<Rightarrow> bool" where
  "isType v n = (type v = n)"

definition isBoolean :: "val \<Rightarrow> bool" where "isBoolean v = isType v ''boolean''"
definition isString :: "val \<Rightarrow> bool" where "isString v = isType v ''string''"
definition isNumber :: "val \<Rightarrow> bool" where "isNumber v = isType v ''number''"
definition isArray :: "val \<Rightarrow> bool" where "isArray v = isType v ''array''"
definition isObject :: "val \<Rightarrow> bool" where "isObject v = isType v ''object''"
definition isDate :: "val \<Rightarrow> bool" where "isDate v = isType v ''date''"
definition isRegExp :: "val \<Rightarrow> bool" where "isRegExp v = isType v ''regexp''"
definition isFunction :: "val \<Rightarrow> bool" where "isFunction v = isType v ''function''"
definition isNull :: "val \<Rightarrow> bool" where "isNull v = isType v ''null''"
definition isUndefined :: "val \<Rightarrow> bool" where "isUndefined v = isType v ''undefined''"
definition isUnknown :: "val \<Rightarrow> bool" where "isUnknown v = (isNull v \<or> isUndefined v)"

text \<open>\<^verbatim>\<open>isObjectLike(v)\<close> is \<^verbatim>\<open>v === Object(v)\<close>: objects, arrays, functions, dates, regexps.\<close>

fun isObjectLike :: "val \<Rightarrow> bool" where
  "isObjectLike (Arr _) = True"
| "isObjectLike (Obj _) = True"
| "isObjectLike (Date _) = True"
| "isObjectLike (RegExp _ _) = True"
| "isObjectLike (Func _) = True"
| "isObjectLike _ = False"

text \<open>\<^verbatim>\<open>!!arg\<close>: the values that convert to \<^verbatim>\<open>false\<close> are
  \<^verbatim>\<open>undefined\<close>, \<^verbatim>\<open>null\<close>, \<^verbatim>\<open>false\<close>, zero, \<^verbatim>\<open>NaN\<close> and the empty string.\<close>

fun truthy :: "val \<Rightarrow> bool" where
  "truthy Undefined = False"
| "truthy Null = False"
| "truthy (Bool b) = b"
| "truthy (Num NaN) = False"
| "truthy (Num (Fin r)) = (r \<noteq> 0)"
| "truthy (Num _) = True"
| "truthy (Str s) = (s \<noteq> [])"
| "truthy _ = True"

definition falsey :: "val \<Rightarrow> bool" where
  "falsey v = (\<not> truthy v)"

text \<open>\<^verbatim>\<open>keys(o)\<close> is \<^verbatim>\<open>Object.keys(o)\<close>: it throws on \<^verbatim>\<open>undefined\<close> and
  \<^verbatim>\<open>null\<close>, lists the indices of an array or a string, and is empty for any other
  value without own enumerable properties.\<close>

definition digit_char :: "nat \<Rightarrow> char" where
  "digit_char n = ''0123456789'' ! (n mod 10)"

function nat_str :: "nat \<Rightarrow> string" where
  "nat_str n =
     (if n < 10 then [digit_char n] else nat_str (n div 10) @ [digit_char (n mod 10)])"
  by pat_completeness auto
termination
  by (relation "measure id") auto

declare nat_str.simps [simp del]

definition int_str :: "int \<Rightarrow> string" where
  "int_str i = (if i < 0 then CHR ''-'' # nat_str (nat (- i)) else nat_str (nat i))"

fun keys :: "val \<Rightarrow> string list result" where
  "keys Undefined = Inl TypeError"
| "keys Null = Inl TypeError"
| "keys (Obj kvs) = Inr (map fst kvs)"
| "keys (Arr xs) = Inr (map nat_str [0..<length xs])"
| "keys (Str s) = Inr (map nat_str [0..<length s])"
| "keys _ = Inr []"

text \<open>\<^verbatim>\<open>isEmpty(x)\<close>.\<close>

definition isEmpty :: "val \<Rightarrow> bool" where
  "isEmpty x =
     (isUnknown x
      \<or> (isArray x \<and> (case x of Arr xs \<Rightarrow> length xs = 0 | _ \<Rightarrow> False))
      \<or> (isObject x \<and> (case x of Obj kvs \<Rightarrow> length (map fst kvs) = 0 | _ \<Rightarrow> False))
      \<or> \<not> truthy x)"

text \<open>Reading an own property of a plain object: \<^verbatim>\<open>o[k]\<close>, \<^verbatim>\<open>undefined\<close> when absent.\<close>

definition getProp :: "(string \<times> val) list \<Rightarrow> string \<Rightarrow> val" where
  "getProp kvs k = (case map_of kvs k of None \<Rightarrow> Undefined | Some v \<Rightarrow> v)"

definition has :: "(string \<times> val) list \<Rightarrow> string \<Rightarrow> bool" where
  "has kvs k = (k \<in> set (map fst kvs))"

text \<open>\<^verbatim>\<open>Object.assign(target, {k: v})\<close> on a plain object: an existing property keeps
  its place and takes the new value, a new one is added last.\<close>

fun setProp :: "(string \<times> val) list \<Rightarrow> string \<Rightarrow> val \<Rightarrow> (string \<times> val) list" where
  "setProp [] k v = [(k, v)]"
| "setProp ((k', v') # kvs) k v =
     (if k' = k then (k, v) # kvs else (k', v') # setProp kvs k v)"

text \<open>\<^verbatim>\<open>delete o[k]\<close> on a plain object.\<close>

definition delProp :: "(string \<times> val) list \<Rightarrow> string \<Rightarrow> (string \<times> val) list" where
  "delProp kvs k = filter (\<lambda>kv. fst kv \<noteq> k) kvs"

subsection \<open>Numeric conversions of the runtime\<close>

text \<open>\<open>ToString\<close> of a finite number: the decimal digits of an integer below \<open>10^21\<close>;
  any other finite number is rendered by the runtime.\<close>

definition num_str :: "host \<Rightarrow> jsnum \<Rightarrow> string" where
  "num_str h n =
     (case n of
        NaN \<Rightarrow> ''NaN''
      | PInf \<Rightarrow> ''Infinity''
      | NInf \<Rightarrow> ''-Infinity''
      | Fin r \<Rightarrow>
          (if r = of_int \<lfloor>r\<rfloor> \<and> \<bar>r\<bar> < 10 ^ 21 then int_str \<lfloor>r\<rfloor> else NumberToString h r))"

fun join :: "string \<Rightarrow> string list \<Rightarrow> string" where
  "join sep [] = []"
| "join sep [s] = s"
| "join sep (s # t # ss) = s @ sep @ join sep (t # ss)"

text \<open>\<^verbatim>\<open>'' + value\<close>: \<open>ToString\<close>. An array joins its elements with commas, with
  \<^verbatim>\<open>undefined\<close> and \<^verbatim>\<open>null\<close> elements rendered as the empty string.\<close>

fun ToString :: "host \<Rightarrow> val \<Rightarrow> string" where
  "ToString h Undefined = ''undefined''"
| "ToString h Null = ''null''"
| "ToString h (Bool b) = (if b then ''true'' else ''false'')"
| "ToString h (Num n) = num_str h n"
| "ToString h (Str s) = s"
| "ToString h (Arr xs) =
     join '','' (map (\<lambda>x. if x = Undefined \<or> x = Null then [] else ToString h x) xs)"
| "ToString h (Obj kvs) = ''[object Object]''"
| "ToString h (Date t) = DateToString h t"
| "ToString h (RegExp src flags) = ''/'' @ src @ ''/'' @ flags"
| "ToString h (Func f) = FuncToString h f"

text \<open>\<open>ToNumber\<close>: an object converts through its string form (an array) or its time
  value (a date); a plain object, a regexp and a function never read as a number.\<close>

fun ToNumber :: "host \<Rightarrow> val \<Rightarrow> jsnum" where
  "ToNumber h Undefined = NaN"
| "ToNumber h Null = Fin 0"
| "ToNumber h (Bool b) = Fin (if b then 1 else 0)"
| "ToNumber h (Num n) = n"
| "ToNumber h (Str s) = StringToNumber h s"
| "ToNumber h (Arr xs) = StringToNumber h (ToString h (Arr xs))"
| "ToNumber h (Obj kvs) = NaN"
| "ToNumber h (Date t) = (case t of None \<Rightarrow> NaN | Some ms \<Rightarrow> Fin (of_int ms))"
| "ToNumber h (RegExp src flags) = NaN"
| "ToNumber h (Func f) = NaN"

text \<open>The global \<^verbatim>\<open>isNaN(v)\<close> converts its argument to a number first.\<close>

definition isNaN :: "host \<Rightarrow> val \<Rightarrow> bool" where
  "isNaN h v = (ToNumber h v = NaN)"

text \<open>\<open>ToIntegerOrInfinity\<close>: \<^verbatim>\<open>NaN\<close> becomes 0, a finite number is truncated
  towards zero.\<close>

datatype intinf = NegInf | IntV int | PosInf

definition trunc :: "real \<Rightarrow> int" where
  "trunc r = (if r < 0 then \<lceil>r\<rceil> else \<lfloor>r\<rfloor>)"

fun ToIntegerOrInfinity :: "jsnum \<Rightarrow> intinf" where
  "ToIntegerOrInfinity NaN = IntV 0"
| "ToIntegerOrInfinity PInf = PosInf"
| "ToIntegerOrInfinity NInf = NegInf"
| "ToIntegerOrInfinity (Fin r) = IntV (trunc r)"

subsection \<open>\<^verbatim>\<open>Array.prototype.slice\<close>\<close>

text \<open>A relative index of \<^verbatim>\<open>slice\<close>: a negative one counts from the end, and the
  result is clamped to \<open>0..len\<close>.\<close>

fun clamp_index :: "nat \<Rightarrow> intinf \<Rightarrow> nat" where
  "clamp_index len NegInf = 0"
| "clamp_index len PosInf = len"
| "clamp_index len (IntV i) = (if i < 0 then nat (max (int len + i) 0) else min (nat i) len)"

text \<open>\<^verbatim>\<open>xs.slice(start, end)\<close>; an \<^verbatim>\<open>undefined\<close> end is the length.\<close>

definition slice_list :: "host \<Rightarrow> 'a list \<Rightarrow> val \<Rightarrow> val \<Rightarrow> 'a list" where
  "slice_list h xs start end =
     (let len = length xs;
          k = clamp_index len (ToIntegerOrInfinity (ToNumber h start));
          final = (if end = Undefined then len
                   else clamp_index len (ToIntegerOrInfinity (ToNumber h end)))
      in take (final - k) (drop k xs))"

text \<open>\<^verbatim>\<open>collection.slice(start, end)\<close> on any value: arrays and strings have the
  method, \<^verbatim>\<open>undefined\<close> and \<^verbatim>\<open>null\<close> have no properties, and on any other value
  \<^verbatim>\<open>slice\<close> is not a function.\<close>

fun method_slice :: "host \<Rightarrow> val \<Rightarrow> val \<Rightarrow> val \<Rightarrow> val result" where
  "method_slice h (Arr xs) start end = Inr (Arr (slice_list h xs start end))"
| "method_slice h (Str s) start end = Inr (Str (slice_list h s start end))"
| "method_slice h _ start end = Inl TypeError"

section \<open>A host for closed examples\<close>

text \<open>
  The closed examples of this theory are evaluated with a host whose conversions are
  never reached by them (they use integers and plain strings only). Its arithmetic is
  exact: the examples compute with small integers only, on which the arithmetic of
  doubles is exact too.
\<close>

definition example_host :: host where
  "example_host =
     \<lparr>StringToNumber = (\<lambda>s. NaN), NumberToString = (\<lambda>r. []), DateToString = (\<lambda>t. []),
      DateToJSON = (\<lambda>t. []), FuncToString = (\<lambda>f. []), RegExpSyntaxOk = (\<lambda>s. True),
      RoundNumber = Fin,
      MathPow = (\<lambda>x y. case (x, y) of (Fin a, Fin b) \<Rightarrow> if b = 2 then Fin (a * a) else NaN
                              | _ \<Rightarrow> NaN),
      MathSqrt = (\<lambda>x. case x of Fin a \<Rightarrow> if a < 0 then NaN else Fin (sqrt a) | _ \<Rightarrow> NaN)\<rparr>"

section \<open>Deep equality and the \<^verbatim>\<open>$eq\<close> query operator\<close>

text \<open>\<^verbatim>\<open>a === b\<close> for values held in two places: primitives compare by value
  (\<^verbatim>\<open>NaN\<close> differs from itself), a function is identified with its reference,
  and two arrays, objects, dates or regexps are taken to be distinct references.\<close>

fun strict_equal :: "val \<Rightarrow> val \<Rightarrow> bool" where
  "strict_equal Undefined Undefined = True"
| "strict_equal Null Null = True"
| "strict_equal (Bool a) (Bool b) = (a = b)"
| "strict_equal (Num a) (Num b) = (a \<noteq> NaN \<and> a = b)"
| "strict_equal (Str a) (Str b) = (a = b)"
| "strict_equal (Func a) (Func b) = (a = b)"
| "strict_equal _ _ = False"

text \<open>
  \<^verbatim>\<open>isEqual (a, b)\<close>, check by check: strict equality, equal type tags,
  \<^verbatim>\<open>NaN\<close> against \<^verbatim>\<open>NaN\<close>, dates and regexps by their string form, arrays
  element by element, objects by their sorted keys and then key by key.
\<close>

function isEqual :: "host \<Rightarrow> val \<Rightarrow> val \<Rightarrow> bool" where
  "isEqual h a b =
     (if strict_equal a b then True
      else if type a \<noteq> type b then False
      else if type a = ''number'' \<and> isNaN h a \<and> isNaN h b then True
      else if type a \<in> set [''date'', ''regexp''] then ToString h a = ToString h b
      else (case (a, b) of
              (Arr as, Arr bs) \<Rightarrow>
                if length as = length bs \<and> length as = 0 then True
                else if length as \<noteq> length bs then False
                else list_all2 (isEqual h) as bs
            | (Obj pa, Obj pb) \<Rightarrow>
                if length (map fst pa) \<noteq> length (map fst pb) then False
                else if \<not> isEqual h (Arr (map Str (sort (map fst pa))))
                                      (Arr (map Str (sort (map fst pb)))) then False
                else list_all (\<lambda>temp. isEqual h (getProp pa temp) (getProp pb temp))
                       (sort (map fst pa))
            | _ \<Rightarrow> False))"
  by pat_completeness auto

lemma size_getProp: "size (getProp kvs k) < Suc (size_list (size_prod (\<lambda>_. 0) size) kvs)"
  by (induction kvs) (auto simp: getProp_def)

lemma size_member: "z \<in> set xs \<Longrightarrow> size (z::val) < size_list size xs"
  by (induction xs) auto

lemma size_list_Str: "size_list (size \<circ> Str) ks = length ks"
  by (induction ks) auto

lemma length_le_size_list: "length xs \<le> size_list f xs"
  by (induction xs) auto

lemma obj_tag_le: "(case z of Obj x \<Rightarrow> 1 | _ \<Rightarrow> 0) \<le> (1::nat)"
  by (cases z) auto

termination isEqual
proof (relation "measure (\<lambda>(h, a, b). 2 * size a + (case a of Obj _ \<Rightarrow> 1 | _ \<Rightarrow> 0))",
    goal_cases)
  case 1
  show ?case by simp
next
  case (2 h a b x y as bs z yb)
  have "size z < size_list size as"
    using 2 by (simp add: size_member)
  moreover have "(case z of Obj x \<Rightarrow> 1 | _ \<Rightarrow> 0) \<le> (1::nat)"
    by (rule obj_tag_le)
  ultimately show ?case using 2 by auto
next
  case (3 h a b x y pa pb)
  have "length (sort (map fst pa)) \<le> size_list (size_prod (\<lambda>x. 0) size) pa"
    using length_le_size_list [of pa] by simp
  then show ?case using 3 by (auto simp: size_list_Str)
next
  case (4 h a b x y pa pb temp)
  have "size (getProp pa temp) < Suc (size_list (size_prod (\<lambda>_. 0) size) pa)"
    by (rule size_getProp)
  moreover have "(case getProp pa temp of Obj x \<Rightarrow> 1 | _ \<Rightarrow> 0) \<le> (1::nat)"
    by (rule obj_tag_le)
  ultimately show ?case using 4 by auto
qed

declare isEqual.simps [simp del]

text \<open>\<^verbatim>\<open>xs.findIndex(p)\<close>: the index of the first element that satisfies \<open>p\<close>, or \<open>-1\<close>.\<close>

fun findIndex :: "('a \<Rightarrow> bool) \<Rightarrow> 'a list \<Rightarrow> nat \<Rightarrow> int" where
  "findIndex p [] i = - 1"
| "findIndex p (x # xs) i = (if p x then int i else findIndex p xs (Suc i))"

text \<open>The simple query operator \<^verbatim>\<open>$eq (a, b)\<close>; the element test is
  \<^verbatim>\<open>isEqual.bind(null, b)\<close>, that is \<^verbatim>\<open>isEqual(b, element)\<close>.\<close>

definition op_eq :: "host \<Rightarrow> val \<Rightarrow> val \<Rightarrow> bool" where
  "op_eq h a b =
     (isEqual h a b
      \<or> (isArray a \<and> (case a of Arr xs \<Rightarrow> findIndex (isEqual h b) xs 0 \<noteq> - 1 | _ \<Rightarrow> False)))"

section \<open>The path resolver\<close>

text \<open>Exceptions pass through \<^verbatim>\<open>xs.map(f)\<close>: the first one ends the traversal.\<close>

fun map_result :: "('a \<Rightarrow> 'b result) \<Rightarrow> 'a list \<Rightarrow> 'b list result" where
  "map_result f [] = Inr []"
| "map_result f (x # xs) =
     (case f x of
        Inl e \<Rightarrow> Inl e
      | Inr y \<Rightarrow> (case map_result f xs of Inl e \<Rightarrow> Inl e | Inr ys \<Rightarrow> Inr (y # ys)))"

lemma map_result_cong [fundef_cong]:
  assumes "xs = ys" and "\<And>x. x \<in> set ys \<Longrightarrow> f x = g x"
  shows "map_result f xs = map_result g ys"
  unfolding assms(1) using assms(2)
  by (induction ys) (simp_all split: sum.splits)

text \<open>\<^verbatim>\<open>selector.split('.')\<close>.\<close>

fun split_dot :: "string \<Rightarrow> string list" where
  "split_dot [] = [[]]"
| "split_dot (c # cs) =
     (if c = CHR ''.'' then [] # split_dot cs
      else (case split_dot cs of [] \<Rightarrow> [[c]] | n # ns \<Rightarrow> (c # n) # ns))"

text \<open>A segment that matches \<^verbatim>\<open>/^\d+$/\<close>.\<close>

definition is_digit :: "char \<Rightarrow> bool" where
  "is_digit c = (CHR ''0'' \<le> c \<and> c \<le> CHR ''9'')"

definition all_digits :: "string \<Rightarrow> bool" where
  "all_digits s = (s \<noteq> [] \<and> list_all is_digit s)"

text \<open>The array index a property name denotes, if it is the canonical decimal form of a
  natural number.\<close>

definition digits_value :: "string \<Rightarrow> nat" where
  "digits_value s = foldl (\<lambda>n c. 10 * n + (of_char c - 48)) 0 s"

definition array_index :: "string \<Rightarrow> nat option" where
  "array_index s =
     (if all_digits s \<and> (s = ''0'' \<or> hd s \<noteq> CHR ''0'') then Some (digits_value s) else None)"

text \<open>\<^verbatim>\<open>getValue (obj, field)\<close> is \<^verbatim>\<open>obj[field]\<close>: own properties of objects,
  elements and length of arrays and strings.\<close>

fun getValue :: "val \<Rightarrow> string \<Rightarrow> val result" where
  "getValue Undefined field = Inl TypeError"
| "getValue Null field = Inl TypeError"
| "getValue (Obj kvs) field = Inr (getProp kvs field)"
| "getValue (Arr xs) field =
     (if field = ''length'' then Inr (Num (Fin (of_nat (length xs))))
      else (case array_index field of
              Some i \<Rightarrow> Inr (if i < length xs then xs ! i else Undefined)
            | None \<Rightarrow> Inr Undefined))"
| "getValue (Str s) field =
     (if field = ''length'' then Inr (Num (Fin (of_nat (length s))))
      else (case array_index field of
              Some i \<Rightarrow> Inr (if i < length s then Str [s ! i] else Undefined)
            | None \<Rightarrow> Inr Undefined))"
| "getValue _ field = Inr Undefined"

text \<open>
  \<^verbatim>\<open>resolve (obj, selector, deepFlag)\<close>. \<open>resolve_loop\<close> is the loop over the
  segments: its arguments are the current value, the segments still to read, the stop
  flag, and whether this is the first iteration. Over an array, a text segment is
  resolved in each element by the call \<^verbatim>\<open>resolve(item, names[i], true)\<close>, whose
  selector is the single segment.
\<close>

function resolve_loop :: "val \<Rightarrow> string list \<Rightarrow> bool \<Rightarrow> bool \<Rightarrow> val result" where
  "resolve_loop v [] deepFlag first = Inr v"
| "resolve_loop v (name # names) deepFlag first =
     (if \<not> all_digits name \<and> isArray v then
        (if deepFlag \<and> first then Inr v
         else (case map_result (\<lambda>item. resolve_loop item [name] True True)
                      (case v of Arr xs \<Rightarrow> xs | _ \<Rightarrow> []) of
                 Inl e \<Rightarrow> Inl e
               | Inr vs \<Rightarrow>
                   (let v' = (if length vs = 1 then hd vs else Arr vs)
                    in if isUndefined v' then Inr v'
                       else resolve_loop v' names deepFlag False)))
      else (case getValue v name of
              Inl e \<Rightarrow> Inl e
            | Inr v' \<Rightarrow>
                if isUndefined v' then Inr v'
                else resolve_loop v' names False False))"
  by pat_completeness auto
termination
  by (relation "measure (\<lambda>(v, names, deepFlag, first).
         2 * length names + (if deepFlag \<and> first then 0 else 1))") auto

definition resolve :: "val \<Rightarrow> string \<Rightarrow> bool \<Rightarrow> val result" where
  "resolve obj selector deepFlag = resolve_loop obj (split_dot selector) deepFlag True"

section \<open>Arithmetic on numbers\<close>

text \<open>
  The arithmetic of doubles. \<^verbatim>\<open>NaN\<close> is absorbing, opposite infinities add to
  \<^verbatim>\<open>NaN\<close>, and a division by zero yields an infinity of the sign of the dividend (the
  zero is taken to be positive) or \<^verbatim>\<open>NaN\<close> for \<open>0 / 0\<close>. On two finite numbers the
  result is the exact real result as the host rounds it: it need not be that real, and
  it is an infinity when the real is too large. Accordingly addition is not associative.
\<close>

fun js_add :: "host \<Rightarrow> jsnum \<Rightarrow> jsnum \<Rightarrow> jsnum" where
  "js_add h NaN _ = NaN"
| "js_add h _ NaN = NaN"
| "js_add h PInf NInf = NaN"
| "js_add h NInf PInf = NaN"
| "js_add h PInf _ = PInf"
| "js_add h _ PInf = PInf"
| "js_add h NInf _ = NInf"
| "js_add h _ NInf = NInf"
| "js_add h (Fin a) (Fin b) = RoundNumber h (a + b)"

fun js_neg :: "jsnum \<Rightarrow> jsnum" where
  "js_neg NaN = NaN"
| "js_neg PInf = NInf"
| "js_neg NInf = PInf"
| "js_neg (Fin a) = Fin (- a)"

definition js_sub :: "host \<Rightarrow> jsnum \<Rightarrow> jsnum \<Rightarrow> jsnum" where
  "js_sub h a b = js_add h a (js_neg b)"

fun js_div :: "host \<Rightarrow> jsnum \<Rightarrow> jsnum \<Rightarrow> jsnum" where
  "js_div h NaN _ = NaN"
| "js_div h _ NaN = NaN"
| "js_div h (Fin a) (Fin b) =
     (if b = 0 then (if a = 0 then NaN else if 0 < a then PInf else NInf)
      else RoundNumber h (a / b))"
| "js_div h (Fin a) _ = Fin 0"
| "js_div h PInf (Fin b) = (if 0 \<le> b then PInf else NInf)"
| "js_div h NInf (Fin b) = (if 0 \<le> b then NInf else PInf)"
| "js_div h _ _ = NaN"

section \<open>Standard deviation\<close>

text \<open>
  \<^verbatim>\<open>stddev ({dataset, sampled = false})\<close> on an array of numbers. \<^verbatim>\<open>reduce\<close> is a
  left fold; \<open>N\<close> is \<^verbatim>\<open>dataset.length || 1\<close>.
\<close>

definition stddev :: "host \<Rightarrow> jsnum list \<Rightarrow> val \<Rightarrow> jsnum" where
  "stddev h dataset sampled =
     (let sum = foldl (\<lambda>acc n. js_add h acc n) (Fin 0) dataset;
          N = (if length dataset = 0 then 1 else length dataset);
          err = (if strict_equal sampled (Bool True) then 1 else 0);
          avg = js_div h sum (js_sub h (Fin (of_nat N)) (Fin err))
      in MathSqrt h (js_div h
           (foldl (\<lambda>acc n. js_add h acc (MathPow h (js_sub h n avg) (Fin 2))) (Fin 0) dataset)
           (Fin (of_nat N))))"

text \<open>The formula of the claim: the sum of a list of numbers (added one after the other
  to 0, from the first), the length \<open>N\<close>, the mean with its divisor \<open>N - 1\<close> or
  \<open>N - 0\<close>, and the root of the sum of the squared deviations divided by \<open>N\<close>. Each
  operation is the operation of doubles.\<close>

definition js_sum :: "host \<Rightarrow> jsnum list \<Rightarrow> jsnum" where
  "js_sum h xs = foldl (js_add h) (Fin 0) xs"

definition dataset_N :: "jsnum list \<Rightarrow> nat" where
  "dataset_N dataset = (if dataset = [] then 1 else length dataset)"

definition stddev_mean :: "host \<Rightarrow> jsnum list \<Rightarrow> bool \<Rightarrow> jsnum" where
  "stddev_mean h dataset sampled =
     js_div h (js_sum h dataset)
       (js_sub h (Fin (real (dataset_N dataset))) (Fin (if sampled then 1 else 0)))"

definition squared_deviation :: "host \<Rightarrow> jsnum \<Rightarrow> jsnum \<Rightarrow> jsnum" where
  "squared_deviation h mean n = MathPow h (js_sub h n mean) (Fin 2)"

definition stddev_formula :: "host \<Rightarrow> jsnum list \<Rightarrow> bool \<Rightarrow> jsnum" where
  "stddev_formula h dataset sampled =
     MathSqrt h (js_div h
       (js_sum h (map (squared_deviation h (stddev_mean h dataset sampled)) dataset))
       (Fin (real (dataset_N dataset))))"

section \<open>Operators of the runtime on values\<close>

text \<open>\<^verbatim>\<open>clone (arg)\<close>: a structural copy of arrays and plain objects.\<close>

primrec clone :: "val \<Rightarrow> val" where
  "clone Undefined = Undefined"
| "clone Null = Null"
| "clone (Bool b) = Bool b"
| "clone (Num n) = Num n"
| "clone (Str s) = Str s"
| "clone (Arr xs) = Arr (map clone xs)"
| "clone (Obj kvs) = Obj (map (map_prod id clone) kvs)"
| "clone (Date t) = Date t"
| "clone (RegExp src flags) = RegExp src flags"
| "clone (Func f) = Func f"

text \<open>\<^verbatim>\<open>JSON.stringify\<close>: the quoting of a string, then of a value. A value that has
  no JSON form (\<^verbatim>\<open>undefined\<close>, a function) is \<open>None\<close>; it is written
  \<^verbatim>\<open>null\<close> inside an array and left out of an object.\<close>

definition hex_digit :: "nat \<Rightarrow> char" where
  "hex_digit n = ''0123456789abcdef'' ! (n mod 16)"

definition json_char :: "char \<Rightarrow> string" where
  "json_char c =
     (if c = CHR 0x22 then [CHR 0x5C, CHR 0x22]
      else if c = CHR 0x5C then [CHR 0x5C, CHR 0x5C]
      else if c = CHR 0x08 then [CHR 0x5C, CHR ''b'']
      else if c = CHR 0x0C then [CHR 0x5C, CHR ''f'']
      else if c = CHR 0x0A then [CHR 0x5C, CHR ''n'']
      else if c = CHR 0x0D then [CHR 0x5C, CHR ''r'']
      else if c = CHR 0x09 then [CHR 0x5C, CHR ''t'']
      else if (of_char c :: nat) < 32
      then [CHR 0x5C, CHR ''u'', CHR ''0'', CHR ''0'',
            hex_digit (of_char c div 16), hex_digit (of_char c)]
      else [c])"

definition json_quote :: "string \<Rightarrow> string" where
  "json_quote s = [CHR 0x22] @ concat (map json_char s) @ [CHR 0x22]"

lemma size_snd_member: "kv \<in> set kvs \<Longrightarrow> size (snd kv) < Suc (size_list (size_prod (\<lambda>_. 0) size) kvs)"
  by (induction kvs) auto

function stringify :: "host \<Rightarrow> val \<Rightarrow> string option" where
  "stringify h Undefined = None"
| "stringify h (Func f) = None"
| "stringify h Null = Some ''null''"
| "stringify h (Bool b) = Some (if b then ''true'' else ''false'')"
| "stringify h (Num n) = Some (case n of Fin r \<Rightarrow> num_str h n | _ \<Rightarrow> ''null'')"
| "stringify h (Str s) = Some (json_quote s)"
| "stringify h (Arr xs) =
     Some (''['' @ join '','' (map (\<lambda>x. case stringify h x of None \<Rightarrow> ''null'' | Some j \<Rightarrow> j) xs)
           @ '']'')"
| "stringify h (Obj kvs) =
     Some (''{'' @ join '',''
             (concat (map (\<lambda>kv. case stringify h (snd kv) of
                                   None \<Rightarrow> []
                                 | Some j \<Rightarrow> [json_quote (fst kv) @ '':'' @ j]) kvs))
           @ ''}'')"
| "stringify h (Date t) =
     Some (case t of None \<Rightarrow> ''null'' | Some ms \<Rightarrow> json_quote (DateToJSON h t))"
| "stringify h (RegExp src flags) = Some ''{}''"
  by pat_completeness auto
termination
proof (relation "measure (\<lambda>(h, v). size v)", goal_cases)
  case 1
  show ?case by simp
next
  case (2 h xs x)
  then show ?case by (simp add: size_member less_Suc_eq)
next
  case (3 h kvs kv)
  then show ?case using size_snd_member [of kv kvs] by simp
qed

text \<open>\<open>ToPrimitive\<close> with the hints \<open>number\<close> (used by \<^verbatim>\<open><\<close>) and
  \<open>default\<close> (used by \<^verbatim>\<open>+\<close>): an object becomes its string form, a date its
  time value under the hint \<open>number\<close>.\<close>

fun ToPrimitive :: "host \<Rightarrow> bool \<Rightarrow> val \<Rightarrow> val" where
  "ToPrimitive h number (Arr xs) = Str (ToString h (Arr xs))"
| "ToPrimitive h number (Obj kvs) = Str (ToString h (Obj kvs))"
| "ToPrimitive h number (Date t) =
     (if number then Num (ToNumber h (Date t)) else Str (ToString h (Date t)))"
| "ToPrimitive h number (RegExp src flags) = Str (ToString h (RegExp src flags))"
| "ToPrimitive h number (Func f) = Str (ToString h (Func f))"
| "ToPrimitive h number v = v"

fun num_lt :: "jsnum \<Rightarrow> jsnum \<Rightarrow> bool" where
  "num_lt NaN _ = False"
| "num_lt _ NaN = False"
| "num_lt (Fin a) (Fin b) = (a < b)"
| "num_lt NInf NInf = False"
| "num_lt PInf _ = False"
| "num_lt NInf _ = True"
| "num_lt _ PInf = True"
| "num_lt _ NInf = False"

text \<open>\<^verbatim>\<open>a < b\<close>: two strings compare by code units, anything else as numbers;
  \<^verbatim>\<open>a > b\<close> is \<^verbatim>\<open>b < a\<close>.\<close>

definition js_lt :: "host \<Rightarrow> val \<Rightarrow> val \<Rightarrow> bool" where
  "js_lt h a b =
     (case (ToPrimitive h True a, ToPrimitive h True b) of
        (Str s, Str t) \<Rightarrow> s < t
      | (pa, pb) \<Rightarrow> num_lt (ToNumber h pa) (ToNumber h pb))"

definition js_gt :: "host \<Rightarrow> val \<Rightarrow> val \<Rightarrow> bool" where
  "js_gt h a b = js_lt h b a"

text \<open>\<^verbatim>\<open>a + b\<close>: concatenation when either operand is a string, addition otherwise.\<close>

definition js_plus :: "host \<Rightarrow> val \<Rightarrow> val \<Rightarrow> val" where
  "js_plus h a b =
     (let pa = ToPrimitive h False a; pb = ToPrimitive h False b
      in if isString pa \<or> isString pb then Str (ToString h pa @ ToString h pb)
         else Num (js_add h (ToNumber h pa) (ToNumber h pb)))"

section \<open>The expression evaluator\<close>

text \<open>\<^verbatim>\<open>ops(OP_AGGREGATE)\<close> and \<^verbatim>\<open>ops(OP_GROUP)\<close>, the same names in both source
  files.\<close>

definition ops_aggregate :: "string list" where
  "ops_aggregate =
     [''$arrayElemAt'', ''$concatArrays'', ''$filter'', ''$indexOfArray'', ''$isArray'',
      ''$range'', ''$reverseArray'', ''$reduce'', ''$size'', ''$slice'', ''$zip'',
      ''$abs'', ''$add'', ''$ceil'', ''$divide'', ''$exp'', ''$floor'', ''$ln'', ''$log'',
      ''$log10'', ''$mod'', ''$multiply'', ''$pow'', ''$sqrt'', ''$subtract'', ''$trunc'',
      ''$and'', ''$or'', ''$not'',
      ''$cmp'', ''$eq'', ''$ne'', ''$gt'', ''$gte'', ''$lt'', ''$lte'', ''$in'', ''$nin'',
      ''$cond'', ''$switch'', ''$ifNull'',
      ''$dayOfYear'', ''$dayOfMonth'', ''$dayOfWeek'', ''$year'', ''$month'', ''$week'',
      ''$hour'', ''$minute'', ''$second'', ''$millisecond'', ''$dateToString'',
      ''$literal'',
      ''$setEquals'', ''$setIntersection'', ''$setDifference'', ''$setUnion'',
      ''$setIsSubset'', ''$anyElementTrue'', ''$allElementsTrue'',
      ''$concat'', ''$indexOfBytes'', ''$split'', ''$strcasecmp'', ''$substr'',
      ''$toLower'', ''$toUpper'',
      ''$map'', ''$let'']"

definition ops_group :: "string list" where
  "ops_group =
     [''$addToSet'', ''$sum'', ''$max'', ''$min'', ''$avg'', ''$push'', ''$first'', ''$last'',
      ''$stdDevPop'', ''$stdDevSamp'']"

text \<open>\<^verbatim>\<open>names.includes(field)\<close> for a field that may be any value: only a string can
  be one of the names.\<close>

definition includes_name :: "string list \<Rightarrow> val \<Rightarrow> bool" where
  "includes_name names field = (case field of Str s \<Rightarrow> s \<in> set names | _ \<Rightarrow> False)"

text \<open>
  An operator handler calls back into the evaluator as
  \<^verbatim>\<open>computeValue(obj, expr, field)\<close>, without options. The handlers are looked up by
  name in a table; a handler with a loop of its own also receives the number of
  iterations it may make.
\<close>

type_synonym evaluator = "val \<Rightarrow> val \<Rightarrow> val \<Rightarrow> val result"
type_synonym aggregate_ops = "nat \<Rightarrow> string \<Rightarrow> evaluator \<Rightarrow> val \<Rightarrow> val \<Rightarrow> val result"
type_synonym group_ops = "string \<Rightarrow> evaluator \<Rightarrow> val \<Rightarrow> val \<Rightarrow> val result"

text \<open>The loop over the keys of an object expression: each entry is evaluated with its
  key as field, and an operator key ends the loop with the value of that entry.\<close>

fun compute_fields ::
  "host \<Rightarrow> (val \<Rightarrow> val \<Rightarrow> val result) \<Rightarrow> (string \<times> val) list \<Rightarrow> string list
     \<Rightarrow> (string \<times> val) list \<Rightarrow> val result" where
  "compute_fields h cv expr [] result = Inr (Obj result)"
| "compute_fields h cv expr (k # rest) result =
     (case cv (getProp expr k) (Str k) of
        Inl e \<Rightarrow> Inl e
      | Inr v \<Rightarrow>
          (let result' = setProp result k v
           in if k \<in> set ops_aggregate
              then (if length (map fst expr) \<noteq> 1
                    then Inl (Error (''Invalid aggregation expression '' @ [CHR 0x27]
                                @ (case stringify h (Obj expr) of None \<Rightarrow> ''undefined'' | Some j \<Rightarrow> j)
                                @ [CHR 0x27]))
                    else Inr (getProp result' k))
              else compute_fields h cv expr rest result'))"

text \<open>\<^verbatim>\<open>s.indexOf(p) === 0\<close>\<close>

definition starts_with :: "string \<Rightarrow> string \<Rightarrow> bool" where
  "starts_with s p = (take (length p) s = p)"

text \<open>
  \<^verbatim>\<open>computeValue (obj, expr, field, opt)\<close>, the same text in both source files. The
  only option read is \<^verbatim>\<open>opt.root\<close>, here \<open>root\<close>, \<^verbatim>\<open>undefined\<close> when no options
  are passed. The first argument bounds the depth of nested calls.
\<close>

fun computeValue ::
  "host \<Rightarrow> aggregate_ops \<Rightarrow> group_ops \<Rightarrow> nat \<Rightarrow> val \<Rightarrow> val \<Rightarrow> val \<Rightarrow> val \<Rightarrow> val result" where
  "computeValue h aops gops 0 obj expr field rootv = Inl Fuel"
| "computeValue h aops gops (Suc n) obj expr field rootv =
     (let rootv' = (if truthy rootv then rootv else clone obj)
      in if includes_name ops_aggregate field
         then aops n (case field of Str s \<Rightarrow> s | _ \<Rightarrow> [])
                (\<lambda>obj' expr' field'. computeValue h aops gops n obj' expr' field' Undefined)
                obj expr
         else if includes_name ops_group field
         then (case computeValue h aops gops n obj expr Null rootv' of
                 Inl e \<Rightarrow> Inl e
               | Inr obj' \<Rightarrow>
                   if \<not> isArray obj'
                   then Inl (Error (''Must use collection type with '' @ ToString h field
                                     @ '' operator''))
                   else gops (case field of Str s \<Rightarrow> s | _ \<Rightarrow> [])
                          (\<lambda>obj' expr' field'. computeValue h aops gops n obj' expr' field' Undefined)
                          obj' Null)
         else if isString expr \<and> (case expr of Str s \<Rightarrow> length s > 0 \<and> hd s = CHR ''$'' | _ \<Rightarrow> False)
         then (case expr of
                 Str s \<Rightarrow>
                   if s = ''$$ROOT'' then Inr rootv'
                   else if s = ''$$CURRENT'' then Inr obj
                   else if s \<in> set [''$$KEEP'', ''$$PRUNE'', ''$$DESCEND''] then Inr expr
                   else (let sysVar = filter (\<lambda>v. starts_with s (v @ ''.'')) [''$$ROOT'', ''$$CURRENT''];
                             obj1 = (if length sysVar = 1 \<and> hd sysVar = ''$$ROOT'' then rootv' else obj);
                             s1 = (if length sysVar = 1 then drop (length (hd sysVar)) s else s)
                         in resolve obj1 (drop 1 s1) False)
               | _ \<Rightarrow> Inl TypeError)
         else (case expr of
                 Arr items \<Rightarrow>
                   (case map_result (\<lambda>item. computeValue h aops gops n obj item Null Undefined) items of
                      Inl e \<Rightarrow> Inl e
                    | Inr vs \<Rightarrow> Inr (Arr vs))
               | Obj kvs \<Rightarrow>
                   compute_fields h (\<lambda>e k. computeValue h aops gops n obj e k rootv') kvs
                     (map fst kvs) []
               | _ \<Rightarrow> Inr (clone expr)))"

section \<open>Aggregation operators\<close>

text \<open>The number a value of type number holds.\<close>

definition number_of :: "val \<Rightarrow> jsnum" where
  "number_of v = (case v of Num n \<Rightarrow> n | _ \<Rightarrow> NaN)"

text \<open>\<^verbatim>\<open>Math.trunc(n)\<close>\<close>

fun js_trunc :: "jsnum \<Rightarrow> jsnum" where
  "js_trunc (Fin r) = Fin (of_int (trunc r))"
| "js_trunc n = n"

text \<open>\<^verbatim>\<open>$sqrt (obj, expr)\<close> and \<^verbatim>\<open>$trunc (obj, expr)\<close>.\<close>

definition op_sqrt :: "host \<Rightarrow> evaluator \<Rightarrow> val \<Rightarrow> val \<Rightarrow> val result" where
  "op_sqrt h cv obj expr =
     (case cv obj expr Null of
        Inl e \<Rightarrow> Inl e
      | Inr n \<Rightarrow>
          if isNaN h n then Inr (Num NaN)
          else if isUnknown n then Inr Null
          else if \<not> (isNumber n \<and> js_gt h n (Num (Fin 0)))
          then Inl (Error ''$sqrt must be a valid expression that resolves to a non-negative number.'')
          else Inr (Num (MathSqrt h (number_of n))))"

definition op_trunc :: "host \<Rightarrow> evaluator \<Rightarrow> val \<Rightarrow> val \<Rightarrow> val result" where
  "op_trunc h cv obj expr =
     (case cv obj expr Null of
        Inl e \<Rightarrow> Inl e
      | Inr n \<Rightarrow>
          if isNaN h n then Inr (Num NaN)
          else if isUnknown n then Inr Null
          else if \<not> (isNumber n \<and> js_gt h n (Num (Fin 0)))
          then Inl (Error ''$trunc must be a valid expression that resolves to a non-negative number.'')
          else Inr (Num (js_trunc (number_of n))))"

text \<open>The loop of \<^verbatim>\<open>$range\<close>, the same in both files:
  \<^verbatim>\<open>while (start < end && step > 0 || start > end && step < 0)\<close>.\<close>

fun range_loop :: "host \<Rightarrow> nat \<Rightarrow> val \<Rightarrow> val \<Rightarrow> val \<Rightarrow> val list \<Rightarrow> val result" where
  "range_loop h 0 start stop step result = Inl Fuel"
| "range_loop h (Suc n) start stop step result =
     (if (js_lt h start stop \<and> js_gt h step (Num (Fin 0)))
         \<or> (js_gt h start stop \<and> js_lt h step (Num (Fin 0)))
      then range_loop h n (js_plus h start step) stop step (result @ [start])
      else Inr (Arr result))"

text \<open>Array destructuring \<^verbatim>\<open>let [a, b, c] = v\<close> iterates \<open>v\<close>: an array or a
  string; nothing else in the model is iterable.\<close>

fun iterate :: "val \<Rightarrow> val list result" where
  "iterate (Arr xs) = Inr xs"
| "iterate (Str s) = Inr (map (\<lambda>c. Str [c]) s)"
| "iterate _ = Inl TypeError"

definition nth_or_undefined :: "val list \<Rightarrow> nat \<Rightarrow> val" where
  "nth_or_undefined xs i = (if i < length xs then xs ! i else Undefined)"

text \<open>\<^verbatim>\<open>$range\<close> of the first file:
  \<^verbatim>\<open>let [start, end, step = 1] = computeValue(obj, expr, null)\<close>; the default applies to
  an \<^verbatim>\<open>undefined\<close> step only.\<close>

definition op_range :: "host \<Rightarrow> nat \<Rightarrow> evaluator \<Rightarrow> val \<Rightarrow> val \<Rightarrow> val result" where
  "op_range h fuel cv obj expr =
     (case cv obj expr Null of
        Inl e \<Rightarrow> Inl e
      | Inr v \<Rightarrow>
          (case iterate v of
             Inl e \<Rightarrow> Inl e
           | Inr xs \<Rightarrow>
               (let start = nth_or_undefined xs 0;
                    stop = nth_or_undefined xs 1;
                    step = (if nth_or_undefined xs 2 = Undefined then Num (Fin 1)
                            else nth_or_undefined xs 2)
                in range_loop h fuel start stop step [])))"

text \<open>\<^verbatim>\<open>$range\<close> of the second file: \<^verbatim>\<open>arr[0]\<close>, \<^verbatim>\<open>arr[1]\<close> and
  \<^verbatim>\<open>arr[2] || 1\<close>; the default applies to every step that converts to \<^verbatim>\<open>false\<close>.\<close>

definition op_range_es5 :: "host \<Rightarrow> nat \<Rightarrow> evaluator \<Rightarrow> val \<Rightarrow> val \<Rightarrow> val result" where
  "op_range_es5 h fuel cv obj expr =
     (case cv obj expr Null of
        Inl e \<Rightarrow> Inl e
      | Inr arr \<Rightarrow>
          (case getValue arr ''0'' of
             Inl e \<Rightarrow> Inl e
           | Inr start \<Rightarrow>
               (case getValue arr ''1'' of
                  Inl e \<Rightarrow> Inl e
                | Inr stop \<Rightarrow>
                    (case getValue arr ''2'' of
                       Inl e \<Rightarrow> Inl e
                     | Inr step2 \<Rightarrow>
                         range_loop h fuel start stop
                           (if truthy step2 then step2 else Num (Fin 1)) []))))"

text \<open>
  \<^verbatim>\<open>aggregateOperators\<close> of the first and of the second file. \<^verbatim>\<open>$sqrt\<close>,
  \<^verbatim>\<open>$trunc\<close> and \<^verbatim>\<open>$range\<close> are embedded; the handlers of the other operators are
  the parameter \<open>aext\<close>.
\<close>

definition aggregateOperators :: "host \<Rightarrow> (string \<Rightarrow> evaluator \<Rightarrow> val \<Rightarrow> val \<Rightarrow> val result) \<Rightarrow> aggregate_ops" where
  "aggregateOperators h aext fuel name =
     (if name = ''$sqrt'' then op_sqrt h
      else if name = ''$trunc'' then op_trunc h
      else if name = ''$range'' then op_range h fuel
      else aext name)"

definition aggregateOperators_es5 :: "host \<Rightarrow> (string \<Rightarrow> evaluator \<Rightarrow> val \<Rightarrow> val \<Rightarrow> val result) \<Rightarrow> aggregate_ops" where
  "aggregateOperators_es5 h aext fuel name =
     (if name = ''$sqrt'' then op_sqrt h
      else if name = ''$trunc'' then op_trunc h
      else if name = ''$range'' then op_range_es5 h fuel
      else aext name)"

text \<open>No handler for the operators that are not embedded, for closed examples.\<close>

definition example_aggregate_ops :: "string \<Rightarrow> evaluator \<Rightarrow> val \<Rightarrow> val \<Rightarrow> val result" where
  "example_aggregate_ops name cv obj expr = Inl TypeError"

definition example_group_ops :: group_ops where
  "example_group_ops name cv collection expr = Inl TypeError"

section \<open>Settings\<close>

text \<open>The settings of the library: the name of the identity field, \<^verbatim>\<open>_id\<close> unless
  \<^verbatim>\<open>setup\<close> renamed it.\<close>

record settings =
  idKey :: string

definition default_settings :: settings where
  "default_settings = \<lparr>idKey = ''_id''\<rparr>"

section \<open>Hashing and grouping\<close>

text \<open>\<^verbatim>\<open>encode (value)\<close> is
  \<^verbatim>\<open>stringify({'': value}) + type(value) + value\<close>.\<close>

definition encode :: "host \<Rightarrow> val \<Rightarrow> string" where
  "encode h v =
     (case stringify h (Obj [([], v)]) of None \<Rightarrow> ''undefined'' | Some j \<Rightarrow> j)
       @ type v @ ToString h v"

text \<open>
  \<^verbatim>\<open>hashcode (value)\<close>. Each step computes \<^verbatim>\<open>((hash << 5) - hash) + chr\<close> and
  truncates it to a signed 32-bit integer with \<^verbatim>\<open>hash |= 0\<close>: arithmetic on 32-bit
  words. The result is the decimal string of the signed value.
\<close>

definition hash_step :: "32 word \<Rightarrow> char \<Rightarrow> 32 word" where
  "hash_step hash c = (push_bit 5 hash - hash) + of_nat (of_char c)"

definition hashcode :: "host \<Rightarrow> val \<Rightarrow> string" where
  "hashcode h v =
     (let s = encode h v
      in if length s = 0 then ''0'' else int_str (sint (foldl hash_step 0 s)))"

text \<open>\<^verbatim>\<open>each (obj, callback)\<close> visits the elements of an array or the values of
  the own properties of an object, and rejects a value that is not an object.\<close>

fun each_items :: "host \<Rightarrow> val \<Rightarrow> val list result" where
  "each_items h (Arr xs) = Inr xs"
| "each_items h (Obj kvs) = Inr (map (\<lambda>k. getProp kvs k) (map fst kvs))"
| "each_items h (Date t) = Inr []"
| "each_items h (RegExp src flags) = Inr []"
| "each_items h (Func f) = Inr []"
| "each_items h v =
     Inl (Error (''Cannot iterate over object of type '' @ [CHR 0x27] @ type v @ [CHR 0x27]))"

text \<open>
  \<^verbatim>\<open>groupBy (collection, fn)\<close>. The state of the loop is the array of keys, the array
  of groups, and the object \<^verbatim>\<open>lookup\<close> from hash codes to indices.
\<close>

record partitions =
  p_keys :: "val list"
  p_groups :: "val list list"

fun groupBy_loop ::
  "host \<Rightarrow> (val \<Rightarrow> val result) \<Rightarrow> val list \<Rightarrow> partitions \<Rightarrow> (string \<times> nat) list
     \<Rightarrow> partitions result" where
  "groupBy_loop h fn [] res lookup = Inr res"
| "groupBy_loop h fn (obj # rest) res lookup =
     (case fn obj of
        Inl e \<Rightarrow> Inl e
      | Inr k \<Rightarrow>
          (let hash = hashcode h k
           in case map_of lookup hash of
                None \<Rightarrow>
                  groupBy_loop h fn rest
                    \<lparr>p_keys = p_keys res @ [k], p_groups = p_groups res @ [[obj]]\<rparr>
                    (lookup @ [(hash, length (p_keys res))])
              | Some index \<Rightarrow>
                  groupBy_loop h fn rest
                    (res\<lparr>p_groups := (p_groups res)[index := p_groups res ! index @ [obj]]\<rparr>)
                    lookup))"

definition groupBy :: "host \<Rightarrow> val \<Rightarrow> (val \<Rightarrow> val result) \<Rightarrow> partitions result" where
  "groupBy h collection fn =
     (case each_items h collection of
        Inl e \<Rightarrow> Inl e
      | Inr xs \<Rightarrow>
          (case groupBy_loop h fn xs \<lparr>p_keys = [], p_groups = []\<rparr> [] of
             Inl e \<Rightarrow> Inl e
           | Inr res \<Rightarrow>
               if length (p_keys res) \<noteq> length (p_groups res)
               then Inl (Error ''Cardinality must be equal for groups and keys'')
               else Inr res))"

section \<open>The \<^verbatim>\<open>$group\<close> stage\<close>

text \<open>
  \<^verbatim>\<open>accumulate (collection, field, expr)\<close>; \<open>accumulate_fields\<close> is its loop over
  the keys of an object expression. A group operator is called as
  \<^verbatim>\<open>groupOperators[field](collection, expr)\<close>.
\<close>

function accumulate :: "host \<Rightarrow> (string \<Rightarrow> val \<Rightarrow> val \<Rightarrow> val result) \<Rightarrow> val \<Rightarrow> val \<Rightarrow> val \<Rightarrow> val result"
  and accumulate_fields ::
    "host \<Rightarrow> (string \<Rightarrow> val \<Rightarrow> val \<Rightarrow> val result) \<Rightarrow> val \<Rightarrow> (string \<times> val) list \<Rightarrow> string list
       \<Rightarrow> (string \<times> val) list \<Rightarrow> val result" where
  "accumulate h gop collection field expr =
     (if includes_name ops_group field
      then gop (case field of Str s \<Rightarrow> s | _ \<Rightarrow> []) collection expr
      else (case expr of
              Obj kvs \<Rightarrow> accumulate_fields h gop collection kvs (map fst kvs) []
            | _ \<Rightarrow> Inr Undefined))"
| "accumulate_fields h gop collection kvs [] result = Inr (Obj result)"
| "accumulate_fields h gop collection kvs (k # rest) result =
     (case accumulate h gop collection (Str k) (getProp kvs k) of
        Inl e \<Rightarrow> Inl e
      | Inr v \<Rightarrow>
          (let result' = setProp result k v
           in if k \<in> set ops_group
              then (if length (map fst kvs) > 1
                    then Inl (Error (''Invalid $group expression '' @ [CHR 0x27]
                                @ (case stringify h (Obj kvs) of None \<Rightarrow> ''undefined'' | Some j \<Rightarrow> j)
                                @ [CHR 0x27]))
                    else Inr (getProp result' k))
              else accumulate_fields h gop collection kvs rest result'))"
  by pat_completeness auto
termination
proof (relation "inv_image (less_than <*lex*> less_than <*lex*> less_than)
    (\<lambda>x. case x of
       Inl (h, gop, collection, field, expr) \<Rightarrow> (size expr, 1::nat, 0::nat)
     | Inr (h, gop, collection, kvs, ks, result) \<Rightarrow> (size (Obj kvs), 0, length ks))",
    goal_cases)
  case 1
  show ?case by (intro wf_inv_image wf_lex_prod wf_less_than)
next
  case (2 h gop collection field expr kvs)
  then show ?case by simp
next
  case (3 h gop collection kvs k rest result)
  show ?case using size_getProp [of kvs k] by simp
next
  case (4 h gop collection kvs k rest result)
  show ?case by simp
qed

text \<open>\<^verbatim>\<open>delete o[k]\<close> on any value: only a plain object loses a property here.\<close>

definition delete_prop :: "val \<Rightarrow> string \<Rightarrow> val" where
  "delete_prop v k = (case v of Obj kvs \<Rightarrow> Obj (delProp kvs k) | _ \<Rightarrow> v)"

text \<open>The loop \<^verbatim>\<open>each(partitions.keys, (value, i) => ...)\<close> of \<^verbatim>\<open>$group\<close>: one
  output document per partition, with the identity field unless the key is
  \<^verbatim>\<open>undefined\<close>, and one field per remaining key of the expression.\<close>

fun group_fields ::
  "host \<Rightarrow> (string \<Rightarrow> val \<Rightarrow> val \<Rightarrow> val result) \<Rightarrow> val \<Rightarrow> (string \<times> val) list \<Rightarrow> string list
     \<Rightarrow> (string \<times> val) list \<Rightarrow> val result" where
  "group_fields h gop collection kvs [] obj = Inr (Obj obj)"
| "group_fields h gop collection kvs (k # rest) obj =
     (case accumulate h gop collection (Str k) (getProp kvs k) of
        Inl e \<Rightarrow> Inl e
      | Inr v \<Rightarrow> group_fields h gop collection kvs rest (setProp obj k v))"

definition group_document ::
  "host \<Rightarrow> settings \<Rightarrow> (string \<Rightarrow> val \<Rightarrow> val \<Rightarrow> val result) \<Rightarrow> val \<Rightarrow> val \<times> val list \<Rightarrow> val result" where
  "group_document h st gop expr p =
     (let obj = (if \<not> isUndefined (fst p) then [(idKey st, fst p)] else [])
      in case keys expr of
           Inl e \<Rightarrow> Inl e
         | Inr ks \<Rightarrow>
             group_fields h gop (Arr (snd p)) (case expr of Obj kvs \<Rightarrow> kvs | _ \<Rightarrow> []) ks obj)"

text \<open>
  \<^verbatim>\<open>$group (collection, expr)\<close>. The stage deletes the identity key in the
  expression object it was given, so it returns that object as it leaves it, next to
  its result. The deletion comes after the partitioning and before the accumulators: an
  exception of the former leaves the expression as it was, one of the latter leaves it
  changed.
\<close>

definition group_stage ::
  "host \<Rightarrow> settings \<Rightarrow> aggregate_ops \<Rightarrow> group_ops \<Rightarrow> nat \<Rightarrow> val \<Rightarrow> val \<Rightarrow> val \<times> val result" where
  "group_stage h st aops gops fuel collection expr =
     (case getValue expr (idKey st) of
        Inl e \<Rightarrow> (expr, Inl e)
      | Inr idKeyExpr \<Rightarrow>
          (case groupBy h collection
                  (\<lambda>obj. computeValue h aops gops fuel obj idKeyExpr idKeyExpr Undefined) of
             Inl e \<Rightarrow> (expr, Inl e)
           | Inr partitions \<Rightarrow>
               (let expr' = delete_prop expr (idKey st)
                in (expr',
                    case map_result
                           (group_document h st
                              (\<lambda>name. gops name
                                 (\<lambda>obj' expr' field'.
                                    computeValue h aops gops fuel obj' expr' field' Undefined))
                              expr')
                           (zip (p_keys partitions) (p_groups partitions)) of
                      Inl e \<Rightarrow> Inl e
                    | Inr docs \<Rightarrow> Inr (Arr docs)))))"

section \<open>The \<^verbatim>\<open>$sort\<close> stage\<close>

text \<open>
  \<^verbatim>\<open>Array.prototype.sort(compare)\<close> moves the \<^verbatim>\<open>undefined\<close> elements to the end
  without comparing them and sorts the others by \<open>compare\<close>. The order it produces is
  fixed by the language only when \<open>compare\<close> is a consistent total order; the model is
  a stable insertion sort, which every conforming implementation agrees with in that
  case.
\<close>

fun insert_by :: "('a \<Rightarrow> 'a \<Rightarrow> int) \<Rightarrow> 'a \<Rightarrow> 'a list \<Rightarrow> 'a list" where
  "insert_by compare x [] = [x]"
| "insert_by compare x (y # ys) =
     (if compare x y \<le> 0 then x # y # ys else y # insert_by compare x ys)"

definition sort_by :: "('a \<Rightarrow> 'a \<Rightarrow> int) \<Rightarrow> 'a list \<Rightarrow> 'a list" where
  "sort_by compare xs = foldr (insert_by compare) xs []"

definition array_sort :: "(val \<Rightarrow> val \<Rightarrow> int) \<Rightarrow> val list \<Rightarrow> val list" where
  "array_sort compare xs =
     sort_by compare (filter (\<lambda>x. x \<noteq> Undefined) xs) @ filter (\<lambda>x. x = Undefined) xs"

text \<open>
  \<^verbatim>\<open>sortBy (collection, fn)\<close>. \<open>sort_keys\<close> is the object \<^verbatim>\<open>sortKeys\<close>: for each
  hash code, the key and the index of the first element with that hash code.
\<close>

fun sort_keys ::
  "host \<Rightarrow> (val \<Rightarrow> nat \<Rightarrow> val) \<Rightarrow> val list \<Rightarrow> nat \<Rightarrow> (string \<times> val \<times> nat) list
     \<Rightarrow> (string \<times> val \<times> nat) list" where
  "sort_keys h fn [] i sortKeys = sortKeys"
| "sort_keys h fn (v # rest) i sortKeys =
     sort_keys h fn rest (Suc i)
       (if hashcode h v \<in> set (map fst sortKeys) then sortKeys
        else sortKeys @ [(hashcode h v, fn v i, i)])"

definition sortBy_compare :: "host \<Rightarrow> (string \<times> val \<times> nat) list \<Rightarrow> val \<Rightarrow> val \<Rightarrow> int" where
  "sortBy_compare h sortKeys a b =
     (case (map_of sortKeys (hashcode h a), map_of sortKeys (hashcode h b)) of
        (Some A, Some B) \<Rightarrow>
          if js_lt h (fst A) (fst B) then - 1
          else if js_gt h (fst A) (fst B) then 1
          else if snd A < snd B then - 1
          else if snd A > snd B then 1
          else 0
      | _ \<Rightarrow> 0)"

definition sortBy :: "host \<Rightarrow> val list \<Rightarrow> (val \<Rightarrow> nat \<Rightarrow> val) \<Rightarrow> val list result" where
  "sortBy h collection fn =
     (let sortKeys = sort_keys h fn collection 0 [];
          ordered = array_sort (sortBy_compare h sortKeys) (map clone collection)
      in if length ordered \<noteq> length collection
         then Inl (Error ''sortBy must retain collection length'')
         else Inr ordered)"

text \<open>The object \<^verbatim>\<open>sortedIndex\<close> that the callback of \<^verbatim>\<open>$sort\<close> fills while
  \<^verbatim>\<open>sortBy\<close> visits the keys: for each hash code, the index of the last key with it.\<close>

fun sorted_index :: "host \<Rightarrow> val list \<Rightarrow> nat \<Rightarrow> (string \<rightharpoonup> nat) \<Rightarrow> (string \<rightharpoonup> nat)" where
  "sorted_index h [] i m = m"
| "sorted_index h (item # rest) i m = sorted_index h rest (Suc i) (m(hashcode h item \<mapsto> i))"

text \<open>
  One step of the loop of \<^verbatim>\<open>$sort\<close> over the sort keys: group the documents by the
  value of the key, sort the group keys, reverse them when the direction is \<open>-1\<close>, and
  concatenate the groups in that order.
\<close>

definition sort_pass :: "host \<Rightarrow> string \<Rightarrow> val \<Rightarrow> val \<Rightarrow> val result" where
  "sort_pass h k direction collection =
     (case groupBy h collection (\<lambda>obj. resolve obj k False) of
        Inl e \<Rightarrow> Inl e
      | Inr grouped \<Rightarrow>
          (case sortBy h (p_keys grouped) (\<lambda>item i. item) of
             Inl e \<Rightarrow> Inl e
           | Inr ordered \<Rightarrow>
               (let sortedIndex = sorted_index h (p_keys grouped) 0 Map.empty;
                    indexKeys = (if strict_equal direction (Num (Fin (- 1)))
                                 then rev ordered else ordered)
                in Inr (Arr (concat
                     (map (\<lambda>item. case sortedIndex (hashcode h item) of
                                     None \<Rightarrow> []
                                   | Some i \<Rightarrow> p_groups grouped ! i)
                        indexKeys))))))"

text \<open>\<^verbatim>\<open>$sort (collection, sortKeys)\<close>: the steps run over the keys in reverse order.\<close>

fun sort_passes :: "host \<Rightarrow> (string \<times> val) list \<Rightarrow> string list \<Rightarrow> val \<Rightarrow> val result" where
  "sort_passes h spec [] collection = Inr collection"
| "sort_passes h spec (k # rest) collection =
     (case sort_pass h k (getProp spec k) collection of
        Inl e \<Rightarrow> Inl e
      | Inr collection' \<Rightarrow> sort_passes h spec rest collection')"

definition sort_stage :: "host \<Rightarrow> val \<Rightarrow> val \<Rightarrow> val result" where
  "sort_stage h collection sortKeys =
     (if \<not> isEmpty sortKeys \<and> isObject sortKeys
      then (case sortKeys of
              Obj spec \<Rightarrow> sort_passes h spec (rev (map fst spec)) collection
            | _ \<Rightarrow> Inr collection)
      else Inr collection)"

section \<open>Pipeline stages\<close>

text \<open>\<^verbatim>\<open>$limit (collection, value)\<close> and \<^verbatim>\<open>$skip (collection, value)\<close>.\<close>

definition limit_stage :: "host \<Rightarrow> val \<Rightarrow> val \<Rightarrow> val result" where
  "limit_stage h collection v = method_slice h collection (Num (Fin 0)) v"

definition skip_stage :: "host \<Rightarrow> val \<Rightarrow> val \<Rightarrow> val result" where
  "skip_stage h collection v = method_slice h collection v Undefined"

text \<open>\<^verbatim>\<open>ops(OP_PIPELINE)\<close>: the names of the built-in pipeline operators (no operator
  added through \<^verbatim>\<open>addOperators\<close>).\<close>

definition ops_pipeline :: "string list" where
  "ops_pipeline =
     [''$addFields'', ''$group'', ''$match'', ''$project'', ''$limit'', ''$skip'',
      ''$unwind'', ''$sort'', ''$sortByCount'', ''$sample'', ''$count'',
      ''$replaceRoot'', ''$redact'']"

text \<open>
  A stage handler takes the collection and the operand of the stage. The handlers of
  \<^verbatim>\<open>$limit\<close>, \<^verbatim>\<open>$skip\<close> and \<^verbatim>\<open>$sort\<close> are the ones above; the handlers
  of the other stages are the parameter \<open>ext\<close>, which also receives whether the
  handler is called with a query as receiver. (\<^verbatim>\<open>$group\<close> and \<^verbatim>\<open>$project\<close> are
  embedded on their own, with the parameters they need.)
\<close>

type_synonym stages = "string \<Rightarrow> bool \<Rightarrow> val \<Rightarrow> val \<Rightarrow> val result"

definition pipelineOperators :: "host \<Rightarrow> stages \<Rightarrow> stages" where
  "pipelineOperators h ext key q collection v =
     (if key = ''$limit'' then limit_stage h collection v
      else if key = ''$skip'' then skip_stage h collection v
      else if key = ''$sort'' then sort_stage h collection v
      else ext key q collection v)"

text \<open>
  \<^verbatim>\<open>Aggregator.run (collection, query)\<close>: the loop over the stage objects. Each must
  have exactly one key, the name of a pipeline operator.
\<close>

fun run_loop :: "host \<Rightarrow> stages \<Rightarrow> bool \<Rightarrow> val list \<Rightarrow> val \<Rightarrow> val result" where
  "run_loop h ext q [] collection = Inr collection"
| "run_loop h ext q (operator # rest) collection =
     (case keys operator of
        Inl e \<Rightarrow> Inl e
      | Inr key \<Rightarrow>
          if length key = 1 \<and> hd key \<in> set ops_pipeline then
            (case pipelineOperators h ext (hd key) q collection
                    (case operator of Obj kvs \<Rightarrow> getProp kvs (hd key) | _ \<Rightarrow> Undefined) of
               Inl e \<Rightarrow> Inl e
             | Inr collection' \<Rightarrow> run_loop h ext q rest collection')
          else Inl (Error (''Invalid aggregation operator '' @ [CHR 0x27] @ join '','' key @ [CHR 0x27])))"

definition Aggregator_run :: "host \<Rightarrow> stages \<Rightarrow> val list \<Rightarrow> val \<Rightarrow> bool \<Rightarrow> val result" where
  "Aggregator_run h ext operators collection q =
     (if \<not> isEmpty (Arr operators) then run_loop h ext q operators collection
      else Inr collection)"

text \<open>\<^verbatim>\<open>Mingo.aggregate (collection, pipeline)\<close>.\<close>

definition aggregate :: "host \<Rightarrow> stages \<Rightarrow> val \<Rightarrow> val \<Rightarrow> val result" where
  "aggregate h ext collection pipeline =
     (if \<not> isArray pipeline then Inl (Error ''Aggregation pipeline must be an array'')
      else (case pipeline of
              Arr operators \<Rightarrow> Aggregator_run h ext operators collection False
            | _ \<Rightarrow> Inl TypeError))"

text \<open>No handler for the stages that are not embedded, for closed examples.\<close>

definition example_stages :: stages where
  "example_stages key q collection v = Inl TypeError"

section \<open>Queries and cursors\<close>

text \<open>
  A compiled predicate is the object \<^verbatim>\<open>{test (obj) {...}}\<close> that a query operator
  returns: a function from the candidate document to a boolean, which may throw.
\<close>

type_synonym predicate = "val \<Rightarrow> bool result"

record query =
  q_criteria :: val
  q_projection :: val
  q_compiled :: "predicate list"

text \<open>\<^verbatim>\<open>Query.test (obj)\<close>: the conjunction of the compiled predicates, left to right.\<close>

fun test_loop :: "predicate list \<Rightarrow> val \<Rightarrow> bool result" where
  "test_loop [] obj = Inr True"
| "test_loop (p # ps) obj =
     (case p obj of
        Inl e \<Rightarrow> Inl e
      | Inr b \<Rightarrow> if \<not> b then Inr False else test_loop ps obj)"

definition Query_test :: "query \<Rightarrow> val \<Rightarrow> bool result" where
  "Query_test q obj = test_loop (q_compiled q) obj"

text \<open>\<^verbatim>\<open>collection.filter(query.test, query)\<close>: the first exception ends the scan.\<close>

fun filter_test :: "query \<Rightarrow> val list \<Rightarrow> val list result" where
  "filter_test q [] = Inr []"
| "filter_test q (x # xs) =
     (case Query_test q x of
        Inl e \<Rightarrow> Inl e
      | Inr b \<Rightarrow>
          (case filter_test q xs of
             Inl e \<Rightarrow> Inl e
           | Inr ys \<Rightarrow> Inr (if b then x # ys else ys)))"

text \<open>
  The cursor. \<open>c_result\<close> is \<open>None\<close> while the field \<^verbatim>\<open>_result\<close> is
  \<^verbatim>\<open>false\<close>. The constructor takes the projection of the query when none is given.
\<close>

record cursor =
  c_query :: query
  c_collection :: val
  c_projection :: val
  c_operators :: "(string \<times> val) list"
  c_result :: "val option"
  c_position :: nat

definition Cursor :: "val \<Rightarrow> query \<Rightarrow> val \<Rightarrow> cursor" where
  "Cursor collection q projection =
     \<lparr>c_query = q, c_collection = collection,
      c_projection = (if truthy projection then projection else q_projection q),
      c_operators = [], c_result = None, c_position = 0\<rparr>"

definition Cursor_skip :: "cursor \<Rightarrow> val \<Rightarrow> cursor" where
  "Cursor_skip c n = c\<lparr>c_operators := setProp (c_operators c) ''$skip'' n\<rparr>"

definition Cursor_limit :: "cursor \<Rightarrow> val \<Rightarrow> cursor" where
  "Cursor_limit c n = c\<lparr>c_operators := setProp (c_operators c) ''$limit'' n\<rparr>"

definition Cursor_sort :: "cursor \<Rightarrow> val \<Rightarrow> cursor" where
  "Cursor_sort c modifier = c\<lparr>c_operators := setProp (c_operators c) ''$sort'' modifier\<rparr>"

text \<open>The loop \<^verbatim>\<open>each(['$sort', '$skip', '$limit', '$project'], op => ...)\<close> of
  \<^verbatim>\<open>_fetch\<close>, which pushes \<^verbatim>\<open>{op: operators[op]}\<close> for each operator present.\<close>

fun select_stages :: "(string \<times> val) list \<Rightarrow> string list \<Rightarrow> val list" where
  "select_stages operators [] = []"
| "select_stages operators (op # rest) =
     (if has operators op then Obj [(op, getProp operators op)] # select_stages operators rest
      else select_stages operators rest)"

text \<open>
  \<^verbatim>\<open>Cursor._fetch ()\<close> returns the result and leaves the cursor changed: the projection
  is injected into the operators, and \<^verbatim>\<open>_result\<close> holds the filtered collection as
  soon as the filter has run, then the output of the pipeline.
\<close>

definition Cursor_fetch :: "host \<Rightarrow> stages \<Rightarrow> cursor \<Rightarrow> cursor \<times> val result" where
  "Cursor_fetch h ext c =
     (case c_result c of
        Some r \<Rightarrow> (c, Inr r)
      | None \<Rightarrow>
          (let c1 = (if isObject (c_projection c)
                     then c\<lparr>c_operators := setProp (c_operators c) ''$project'' (c_projection c)\<rparr>
                     else c)
           in if \<not> isArray (c_collection c1)
              then (c1, Inl (Error ''Input collection is not of valid type. Must be an Array.''))
              else
                (case filter_test (c_query c1)
                        (case c_collection c1 of Arr xs \<Rightarrow> xs | _ \<Rightarrow> []) of
                   Inl e \<Rightarrow> (c1, Inl e)
                 | Inr ys \<Rightarrow>
                     (let c2 = c1\<lparr>c_result := Some (Arr ys)\<rparr>;
                          pipeline = select_stages (c_operators c2)
                                       [''$sort'', ''$skip'', ''$limit'', ''$project'']
                      in if length pipeline > 0
                         then (case Aggregator_run h ext pipeline (Arr ys) True of
                                 Inl e \<Rightarrow> (c2, Inl e)
                               | Inr r \<Rightarrow> (c2\<lparr>c_result := Some r\<rparr>, Inr r))
                         else (c2, Inr (Arr ys))))))"

text \<open>The calls a caller can make on a cursor before it is materialized.\<close>

datatype call = Skip val | Limit val | Sort val

fun apply_call :: "cursor \<Rightarrow> call \<Rightarrow> cursor" where
  "apply_call c (Skip n) = Cursor_skip c n"
| "apply_call c (Limit n) = Cursor_limit c n"
| "apply_call c (Sort m) = Cursor_sort c m"






section \<open>Compiling a query\<close>

text \<open>\<^verbatim>\<open>ops(OP_QUERY)\<close>: the compound operators, then the simple ones.\<close>

definition ops_query :: "string list" where
  "ops_query =
     [''$and'', ''$or'', ''$nor'', ''$not'', ''$where'',
      ''$eq'', ''$ne'', ''$in'', ''$nin'', ''$lt'', ''$lte'', ''$gt'', ''$gte'', ''$mod'',
      ''$regex'', ''$exists'', ''$all'', ''$size'', ''$elemMatch'', ''$type'']"

definition isPrimitive :: "val \<Rightarrow> bool" where
  "isPrimitive v =
     (isString v \<or> isBoolean v \<or> isNumber v \<or> isDate v \<or> isUnknown v \<or> isRegExp v)"

definition isSimpleType :: "val \<Rightarrow> bool" where
  "isSimpleType v = (isPrimitive v \<or> \<not> isObjectLike v)"

text \<open>\<^verbatim>\<open>intersection (xs, ys)\<close> is \<^verbatim>\<open>xs.filter(inArray.bind(null, ys))\<close>; it is
  used on arrays of strings here.\<close>

definition intersection :: "string list \<Rightarrow> string list \<Rightarrow> string list" where
  "intersection xs ys = filter (\<lambda>x. x \<in> set ys) xs"

text \<open>\<^verbatim>\<open>options.indexOf(c) >= 0\<close>: a substring test on a string, an element test on
  an array; no other value has the method.\<close>

fun indexOf_found :: "val \<Rightarrow> char \<Rightarrow> bool result" where
  "indexOf_found (Str s) c = Inr (c \<in> set s)"
| "indexOf_found (Arr xs) c = Inr (Str [c] \<in> set xs)"
| "indexOf_found _ c = Inl TypeError"

text \<open>The flags that \<^verbatim>\<open>normalize\<close> collects from \<^verbatim>\<open>$options\<close>, in the order in
  which a regular expression reports them. The flags of a string pattern itself
  (\<^verbatim>\<open>regex.ignoreCase\<close> and so on) are \<^verbatim>\<open>undefined\<close>.\<close>

definition regex_modifiers :: "val \<Rightarrow> string result" where
  "regex_modifiers options =
     (case indexOf_found options CHR ''i'' of
        Inl e \<Rightarrow> Inl e
      | Inr i \<Rightarrow>
          (case indexOf_found options CHR ''m'' of
             Inl e \<Rightarrow> Inl e
           | Inr m \<Rightarrow>
               (case indexOf_found options CHR ''g'' of
                  Inl e \<Rightarrow> Inl e
                | Inr g \<Rightarrow>
                    Inr ((if g then ''g'' else []) @ (if i then ''i'' else [])
                          @ (if m then ''m'' else [])))))"

text \<open>
  \<^verbatim>\<open>normalize (expr)\<close>. The source rewrites \<^verbatim>\<open>$regex\<close> and deletes
  \<^verbatim>\<open>$options\<close> in the caller's object; the model returns the normalized expression.
\<close>

definition normalize :: "host \<Rightarrow> val \<Rightarrow> val result" where
  "normalize h expr =
     (if isSimpleType expr
      then Inr (if isRegExp expr then Obj [(''$regex'', expr)] else Obj [(''$eq'', expr)])
      else if isObjectLike expr
      then (case keys expr of
              Inl e \<Rightarrow> Inl e
            | Inr exprKeys \<Rightarrow>
                if length (intersection ops_query exprKeys) = 0
                then Inr (Obj [(''$eq'', expr)])
                else (case expr of
                        Obj kvs \<Rightarrow>
                          if ''$regex'' \<in> set exprKeys
                          then (let regex = getProp kvs ''$regex'';
                                    options = (if truthy (getProp kvs ''$options'')
                                               then getProp kvs ''$options'' else Str [])
                                in case (case regex of
                                           Str src \<Rightarrow>
                                             (case regex_modifiers options of
                                                Inl e \<Rightarrow> Inl e
                                              | Inr modifiers \<Rightarrow>
                                                  if RegExpSyntaxOk h src
                                                  then Inr (RegExp src modifiers)
                                                  else Inl SyntaxError)
                                         | _ \<Rightarrow> Inr regex) of
                                     Inl e \<Rightarrow> Inl e
                                   | Inr regex' \<Rightarrow>
                                       Inr (Obj (delProp (setProp kvs ''$regex'' regex')
                                                   ''$options'')))
                          else Inr expr
                      | _ \<Rightarrow> Inr expr))
      else Inr expr)"

text \<open>
  The handler of a query operator takes the selector and the operand and returns a
  predicate, or throws. A simple operator \<open>f\<close> is wrapped so that its predicate
  resolves the selector in the candidate and calls \<open>f\<close> on the resolved value.
\<close>

type_synonym query_ops = "string \<Rightarrow> string \<Rightarrow> val \<Rightarrow> predicate result"

definition simple_operator :: "(val \<Rightarrow> val \<Rightarrow> bool) \<Rightarrow> string \<Rightarrow> val \<Rightarrow> predicate result" where
  "simple_operator f selector v =
     Inr (\<lambda>obj. case resolve obj selector False of
                  Inl e \<Rightarrow> Inl e
                | Inr lhs \<Rightarrow> Inr (f lhs v))"

text \<open>\<^verbatim>\<open>queryOperators\<close>: \<^verbatim>\<open>$eq\<close> and \<^verbatim>\<open>$ne\<close> are embedded; the handlers of
  the other operators are the parameter \<open>qext\<close>.\<close>

definition queryOperators :: "host \<Rightarrow> query_ops \<Rightarrow> query_ops" where
  "queryOperators h qext operator =
     (if operator = ''$eq'' then simple_operator (op_eq h)
      else if operator = ''$ne'' then simple_operator (\<lambda>a b. \<not> op_eq h a b)
      else qext operator)"

text \<open>\<^verbatim>\<open>Query._processOperator (field, operator, value)\<close>, on the list of compiled
  predicates.\<close>

definition processOperator ::
  "host \<Rightarrow> query_ops \<Rightarrow> predicate list \<Rightarrow> string \<Rightarrow> string \<Rightarrow> val \<Rightarrow> predicate list result" where
  "processOperator h qext compiled field operator v =
     (if operator \<in> set ops_query
      then (case queryOperators h qext operator field v of
              Inl e \<Rightarrow> Inl e
            | Inr p \<Rightarrow> Inr (compiled @ [p]))
      else Inl (Error (''Invalid query operator '' @ [CHR 0x27] @ operator @ [CHR 0x27]
                        @ '' detected'')))"

text \<open>The loop \<^verbatim>\<open>for (let op in expr)\<close> over a normalized expression.\<close>

fun compile_ops ::
  "host \<Rightarrow> query_ops \<Rightarrow> predicate list \<Rightarrow> string \<Rightarrow> (string \<times> val) list \<Rightarrow> string list
     \<Rightarrow> predicate list result" where
  "compile_ops h qext compiled field expr [] = Inr compiled"
| "compile_ops h qext compiled field expr (op # rest) =
     (case processOperator h qext compiled field op (getProp expr op) of
        Inl e \<Rightarrow> Inl e
      | Inr compiled' \<Rightarrow> compile_ops h qext compiled' field expr rest)"

text \<open>The loop \<^verbatim>\<open>for (let field in this._criteria)\<close> of \<^verbatim>\<open>_compile\<close>.\<close>

fun compile_fields ::
  "host \<Rightarrow> query_ops \<Rightarrow> predicate list \<Rightarrow> (string \<times> val) list \<Rightarrow> string list
     \<Rightarrow> predicate list result" where
  "compile_fields h qext compiled criteria [] = Inr compiled"
| "compile_fields h qext compiled criteria (field # rest) =
     (case (if field \<in> set [''$and'', ''$or'', ''$nor'', ''$where'']
            then processOperator h qext compiled field field (getProp criteria field)
            else (case normalize h (getProp criteria field) of
                    Inl e \<Rightarrow> Inl e
                  | Inr expr \<Rightarrow>
                      (case keys expr of
                         Inl e \<Rightarrow> Inl e
                       | Inr ops \<Rightarrow>
                           compile_ops h qext compiled field
                             (case expr of Obj kvs \<Rightarrow> kvs | _ \<Rightarrow> []) ops))) of
        Inl e \<Rightarrow> Inl e
      | Inr compiled' \<Rightarrow> compile_fields h qext compiled' criteria rest)"

text \<open>\<^verbatim>\<open>Query._compile ()\<close>, from the empty list of predicates.\<close>

definition compile :: "host \<Rightarrow> query_ops \<Rightarrow> val \<Rightarrow> predicate list result" where
  "compile h qext criteria =
     (if isEmpty criteria then Inr []
      else if \<not> isObject criteria
      then Inl (Error ''Criteria must be of type Object'')
      else (case criteria of
              Obj kvs \<Rightarrow> compile_fields h qext [] kvs (map fst kvs)
            | _ \<Rightarrow> Inr []))"

text \<open>\<^verbatim>\<open>new Query (criteria, projection)\<close>.\<close>

definition Query :: "host \<Rightarrow> query_ops \<Rightarrow> val \<Rightarrow> val \<Rightarrow> query result" where
  "Query h qext criteria projection =
     (case compile h qext criteria of
        Inl e \<Rightarrow> Inl e
      | Inr compiled \<Rightarrow>
          Inr \<lparr>q_criteria = criteria, q_projection = projection, q_compiled = compiled\<rparr>)"

text \<open>\<^verbatim>\<open>Query.find (collection, projection)\<close>, \<^verbatim>\<open>Cursor.all ()\<close> and
  \<^verbatim>\<open>Mingo.find (collection, criteria, projection)\<close>.\<close>

definition Query_find :: "query \<Rightarrow> val \<Rightarrow> val \<Rightarrow> cursor" where
  "Query_find q collection projection = Cursor collection q projection"

definition Cursor_all :: "host \<Rightarrow> stages \<Rightarrow> cursor \<Rightarrow> cursor \<times> val result" where
  "Cursor_all h ext c = Cursor_fetch h ext c"

definition find :: "host \<Rightarrow> query_ops \<Rightarrow> val \<Rightarrow> val \<Rightarrow> val \<Rightarrow> cursor result" where
  "find h qext collection criteria projection =
     (case Query h qext criteria Undefined of
        Inl e \<Rightarrow> Inl e
      | Inr q \<Rightarrow> Inr (Query_find q collection projection))"

text \<open>No handler for the query operators that are not embedded, for closed examples.\<close>

definition example_query_ops :: query_ops where
  "example_query_ops operator selector v = Inl TypeError"

section \<open>The \<^verbatim>\<open>$project\<close> stage\<close>

text \<open>The loop \<^verbatim>\<open>for (let i = 0; i < collection.length; i++)\<close> reads the elements of
  an array (or the characters of a string); \<^verbatim>\<open>undefined\<close> and \<^verbatim>\<open>null\<close> have no
  length, and any other value has an \<^verbatim>\<open>undefined\<close> one, which ends the loop at once.\<close>

fun indexed_elements :: "val \<Rightarrow> val list result" where
  "indexed_elements (Arr xs) = Inr xs"
| "indexed_elements (Str s) = Inr (map (\<lambda>c. Str [c]) s)"
| "indexed_elements Undefined = Inl TypeError"
| "indexed_elements Null = Inl TypeError"
| "indexed_elements _ = Inr []"

text \<open>\<^verbatim>\<open>v === 0 || v === false\<close>\<close>

definition is_exclusion :: "val \<Rightarrow> bool" where
  "is_exclusion v = (strict_equal v (Num (Fin 0)) \<or> strict_equal v (Bool False))"

text \<open>
  The validation loop of \<^verbatim>\<open>$project\<close> over the keys of the specification. The pair
  is the array \<^verbatim>\<open>check\<close>: whether an exclusion and whether anything else has been
  seen among the keys other than the identity key.
\<close>

fun project_check :: "settings \<Rightarrow> val \<Rightarrow> string list \<Rightarrow> bool \<times> bool \<Rightarrow> unit result" where
  "project_check st expr [] check = Inr ()"
| "project_check st expr (k # ks) check =
     (case getValue expr k of
        Inl e \<Rightarrow> Inl e
      | Inr v \<Rightarrow>
          if k = idKey st then project_check st expr ks check
          else (let check' = (if is_exclusion v then (True, snd check) else (fst check, True))
                in if \<not> (fst check' \<noteq> snd check')
                   then Inl (Error ''Projection cannot have a mix of inclusion and exclusion.'')
                   else project_check st expr ks check'))"

text \<open>
  The keys that \<^verbatim>\<open>$project\<close> goes on to process, and whether the specification
  excludes the identity field only: an excluded identity key is dropped from the keys,
  a missing one is added last.
\<close>

definition project_keys :: "settings \<Rightarrow> val \<Rightarrow> string list \<Rightarrow> (string list \<times> bool) result" where
  "project_keys st expr objKeys =
     (if idKey st \<in> set objKeys
      then (case getValue expr (idKey st) of
              Inl e \<Rightarrow> Inl e
            | Inr idv \<Rightarrow>
                if is_exclusion idv
                then (let objKeys' = filter (\<lambda>k. k \<notin> set [idKey st]) objKeys
                      in if \<not> (idKey st \<notin> set objKeys')
                         then Inl (Error ''Must not contain collections _id'')
                         else Inr (objKeys', isEmpty (Arr (map Str objKeys'))))
                else Inr (objKeys, False))
      else Inr (objKeys @ [idKey st], False))"

text \<open>
  \<^verbatim>\<open>$project (collection, expr)\<close>. The body of the loop over the documents, which
  reshapes one document from the specification, the keys and the identity-only flag, is
  the parameter \<open>project_doc\<close>.
\<close>

type_synonym project_body = "val \<Rightarrow> string list \<Rightarrow> bool \<Rightarrow> val \<Rightarrow> val result"

definition project_stage :: "settings \<Rightarrow> project_body \<Rightarrow> val \<Rightarrow> val \<Rightarrow> val result" where
  "project_stage st project_doc collection expr =
     (if isEmpty expr then Inr collection
      else (case keys expr of
              Inl e \<Rightarrow> Inl e
            | Inr objKeys \<Rightarrow>
                (case project_check st expr objKeys (False, False) of
                   Inl e \<Rightarrow> Inl e
                 | Inr _ \<Rightarrow>
                     (case project_keys st expr objKeys of
                        Inl e \<Rightarrow> Inl e
                      | Inr (objKeys', idOnlyExcludedExpression) \<Rightarrow>
                          (case indexed_elements collection of
                             Inl e \<Rightarrow> Inl e
                           | Inr docs \<Rightarrow>
                               (case map_result
                                       (project_doc expr objKeys' idOnlyExcludedExpression)
                                       docs of
                                  Inl e \<Rightarrow> Inl e
                                | Inr projected \<Rightarrow> Inr (Arr projected)))))))"

text \<open>No body for closed examples over an empty collection.\<close>

definition example_project_body :: project_body where
  "example_project_body expr objKeys idOnly obj = Inl TypeError"

text \<open>An inclusion value of the claim: \<^verbatim>\<open>1\<close> or \<^verbatim>\<open>true\<close>.\<close>

definition is_inclusion :: "val \<Rightarrow> bool" where
  "is_inclusion v = (v = Num (Fin 1) \<or> v = Bool True)"

section \<open>Sorting by ranks\<close>

text \<open>
  Notions for reasoning about \<^verbatim>\<open>$sort\<close>. \<open>sort_value k d\<close> is the value that the
  step of key \<open>k\<close> reads from the document \<open>d\<close>. \<open>firsts\<close> keeps the first
  occurrence of each element of a list, and \<open>index_of\<close> is the position of the first
  occurrence of an element.

  A set of values is \<open>strictly_ordered\<close> when \<^verbatim>\<open><\<close> is a strict total order on
  its members other than \<^verbatim>\<open>undefined\<close>: of two distinct members one is smaller than
  the other (no two of them are tied, as \<^verbatim>\<open>null\<close> and \<open>0\<close> are), and smaller is
  transitive. This is when the comparison function of \<^verbatim>\<open>sortBy\<close> is consistent, so
  that the language fixes what \<^verbatim>\<open>Array.prototype.sort\<close> returns. The \<open>rank\<close> of a
  member is then the number of members smaller than it; \<^verbatim>\<open>undefined\<close>, which
  \<^verbatim>\<open>sort\<close> puts last, has the greatest rank.
\<close>

definition sort_value :: "string \<Rightarrow> val \<Rightarrow> val" where
  "sort_value k d = (case resolve d k False of Inl e \<Rightarrow> Undefined | Inr v \<Rightarrow> v)"

definition resolves :: "string \<Rightarrow> val \<Rightarrow> bool" where
  "resolves k d = (case resolve d k False of Inl e \<Rightarrow> False | Inr v \<Rightarrow> True)"

fun sort_fields :: "val \<Rightarrow> string list" where
  "sort_fields (Obj spec) = map fst spec"
| "sort_fields v = []"

definition firsts :: "'a list \<Rightarrow> 'a list" where
  "firsts ys = foldl (\<lambda>acc y. if y \<in> set acc then acc else acc @ [y]) [] ys"

fun index_of :: "'a list \<Rightarrow> 'a \<Rightarrow> nat" where
  "index_of [] a = 0"
| "index_of (x # xs) a = (if x = a then 0 else Suc (index_of xs a))"

definition strictly_ordered :: "host \<Rightarrow> val set \<Rightarrow> bool" where
  "strictly_ordered h V =
     ((\<forall>a\<in>V. \<forall>b\<in>V. a \<noteq> Undefined \<and> b \<noteq> Undefined \<and> a \<noteq> b \<longrightarrow> js_lt h a b \<or> js_lt h b a)
      \<and> (\<forall>a\<in>V. \<forall>b\<in>V. \<forall>c\<in>V. js_lt h a b \<and> js_lt h b c \<longrightarrow> js_lt h a c))"

definition rank :: "host \<Rightarrow> val set \<Rightarrow> val \<Rightarrow> nat" where
  "rank h V a = (if a = Undefined then card V else card {b \<in> V. js_lt h b a})"

text \<open>The state of \<^verbatim>\<open>groupBy\<close> after a list of documents whose keys have distinct
  hash codes: the keys in order of first occurrence, with the documents of each.\<close>

definition grouped :: "(val \<Rightarrow> val) \<Rightarrow> val list \<Rightarrow> partitions" where
  "grouped f xs =
     \<lparr>p_keys = firsts (map f xs),
      p_groups = map (\<lambda>k. filter (\<lambda>x. f x = k) xs) (firsts (map f xs))\<rparr>"

definition lookup_of :: "host \<Rightarrow> val list \<Rightarrow> (string \<times> nat) list" where
  "lookup_of h K = zip (map (hashcode h) K) [0..<length K]"

text \<open>The order of the group keys in the step of key \<open>k\<close>, the position of a document
  in that order, and the positions for a list of steps, last step first.\<close>

definition pass_keys :: "host \<Rightarrow> string \<Rightarrow> val \<Rightarrow> val list \<Rightarrow> val list" where
  "pass_keys h k direction xs =
     (let ordered = sort_key (rank h (sort_value k ` set xs)) (firsts (map (sort_value k) xs))
      in if strict_equal direction (Num (Fin (- 1))) then rev ordered else ordered)"

definition pass_rank :: "host \<Rightarrow> string \<Rightarrow> val \<Rightarrow> val list \<Rightarrow> val \<Rightarrow> nat" where
  "pass_rank h k direction xs d = index_of (pass_keys h k direction xs) (sort_value k d)"

definition passes_rank ::
  "host \<Rightarrow> (string \<times> val) list \<Rightarrow> string list \<Rightarrow> val list \<Rightarrow> val \<Rightarrow> nat list" where
  "passes_rank h spec ks xs d = rev (map (\<lambda>k. pass_rank h k (getProp spec k) xs d) ks)"

section \<open>Consecutive skips\<close>

lemma clamp_index_nat [simp]: "clamp_index len (IntV (int n)) = min n len"
  by simp

lemma trunc_of_nat [simp]: "trunc (of_nat n) = int n"
  by (simp add: trunc_def)

lemma slice_list_skip_nat:
  "slice_list h xs (Num (Fin (of_nat n))) Undefined = drop n xs"
  by (simp add: slice_list_def Let_def min_def)

lemma isEmpty_Arr_Cons [simp]: "\<not> isEmpty (Arr (x # xs))"
  by (simp add: isEmpty_def isUnknown_def isNull_def isUndefined_def isType_def isArray_def
      isObject_def)

lemma skip_key_in_ops: "''$skip'' \<in> set ops_pipeline"
  by (simp add: ops_pipeline_def)

lemma run_skip_nat:
  "run_loop h ext q (Obj [(''$skip'', Num (Fin (of_nat n)))] # rest) (Arr xs)
     = run_loop h ext q rest (Arr (drop n xs))"
  by (simp add: skip_key_in_ops pipelineOperators_def skip_stage_def getProp_def
      slice_list_skip_nat)

text \<open>
  C1 (amended). For every array \<open>xs\<close> and all non-negative integers \<open>i\<close> and \<open>j\<close>,
  the pipeline \<^verbatim>\<open>[{$skip: i}, {$skip: j}]\<close> returns the same documents as
  \<^verbatim>\<open>[{$skip: i + j}]\<close>: both drop the first \<open>i + j\<close> documents.
\<close>

theorem skip_skip_nonneg:
  "aggregate h ext (Arr xs)
       (Arr [Obj [(''$skip'', Num (Fin (of_nat i)))], Obj [(''$skip'', Num (Fin (of_nat j)))]])
     = aggregate h ext (Arr xs) (Arr [Obj [(''$skip'', Num (Fin (of_nat (i + j))))]])"
proof -
  have two: "run_loop h ext False
       [Obj [(''$skip'', Num (Fin (of_nat i)))], Obj [(''$skip'', Num (Fin (of_nat j)))]] (Arr xs)
     = Inr (Arr (drop j (drop i xs)))"
    by (simp only: run_skip_nat run_loop.simps(1))
  have one: "run_loop h ext False [Obj [(''$skip'', Num (Fin (of_nat (i + j))))]] (Arr xs)
     = Inr (Arr (drop (i + j) xs))"
    by (simp only: run_skip_nat run_loop.simps(1))
  have "drop j (drop i xs) = drop (i + j) xs"
    by (simp add: add.commute)
  with two one show ?thesis
    by (simp add: aggregate_def Aggregator_run_def isArray_def isType_def)
qed

text \<open>
  C1 as stated fails for negative numbers, which \<^verbatim>\<open>slice\<close> counts from the end:
  over three documents, skipping \<open>-1\<close> twice keeps the last document, while skipping
  \<open>-2\<close> keeps the last two.
\<close>

theorem skip_skip_negative_counterexample:
  "aggregate example_host example_stages
       (Arr [Obj [(''a'', Num (Fin 1))], Obj [(''a'', Num (Fin 2))], Obj [(''a'', Num (Fin 3))]])
       (Arr [Obj [(''$skip'', Num (Fin (- 1)))], Obj [(''$skip'', Num (Fin (- 1)))]])
     \<noteq> aggregate example_host example_stages
       (Arr [Obj [(''a'', Num (Fin 1))], Obj [(''a'', Num (Fin 2))], Obj [(''a'', Num (Fin 3))]])
       (Arr [Obj [(''$skip'', Num (Fin (- 1 + - 1)))]])"
  by (simp add: aggregate_def Aggregator_run_def isArray_def isType_def skip_key_in_ops
      pipelineOperators_def skip_stage_def getProp_def slice_list_def trunc_def ceiling_minus)

section \<open>Cursor materialization\<close>

lemma map_of_setProp: "map_of (setProp kvs k v) = (map_of kvs)(k \<mapsto> v)"
  by (induction kvs) (auto simp: fun_upd_twist)



lemma map_of_apply_call:
  "map_of (c_operators (apply_call c x)) =
     (case x of Skip n \<Rightarrow> (map_of (c_operators c))(''$skip'' \<mapsto> n)
              | Limit n \<Rightarrow> (map_of (c_operators c))(''$limit'' \<mapsto> n)
              | Sort m \<Rightarrow> (map_of (c_operators c))(''$sort'' \<mapsto> m))"
  by (cases x) (simp_all add: Cursor_skip_def Cursor_limit_def Cursor_sort_def map_of_setProp)






lemma Cursor_fetch_fresh:
  assumes "c_result c = None"
  shows "snd (Cursor_fetch h ext c) =
     (if \<not> isArray (c_collection c)
      then Inl (Error ''Input collection is not of valid type. Must be an Array.'')
      else (case filter_test (c_query c) (case c_collection c of Arr xs \<Rightarrow> xs | _ \<Rightarrow> []) of
              Inl e \<Rightarrow> Inl e
            | Inr ys \<Rightarrow>
                (let pipeline = select_stages
                       (if isObject (c_projection c)
                        then setProp (c_operators c) ''$project'' (c_projection c)
                        else c_operators c)
                       [''$sort'', ''$skip'', ''$limit'', ''$project'']
                 in if pipeline = [] then Inr (Arr ys)
                    else Aggregator_run h ext pipeline (Arr ys) True)))"
proof -
  define c1 where "c1 = (if isObject (c_projection c)
                     then c\<lparr>c_operators := setProp (c_operators c) ''$project'' (c_projection c)\<rparr>
                     else c)"
  define ops where "ops = (if isObject (c_projection c)
                        then setProp (c_operators c) ''$project'' (c_projection c)
                        else c_operators c)"
  have c1: "c_query c1 = c_query c" "c_collection c1 = c_collection c"
    "c_operators (c1\<lparr>c_result := r\<rparr>) = ops" for r
    by (simp_all add: c1_def ops_def)
  have fetch: "Cursor_fetch h ext c =
     (if \<not> isArray (c_collection c1)
              then (c1, Inl (Error ''Input collection is not of valid type. Must be an Array.''))
              else
                (case filter_test (c_query c1)
                        (case c_collection c1 of Arr xs \<Rightarrow> xs | _ \<Rightarrow> []) of
                   Inl e \<Rightarrow> (c1, Inl e)
                 | Inr ys \<Rightarrow>
                     (let c2 = c1\<lparr>c_result := Some (Arr ys)\<rparr>;
                          pipeline = select_stages (c_operators c2)
                                       [''$sort'', ''$skip'', ''$limit'', ''$project'']
                      in if length pipeline > 0
                         then (case Aggregator_run h ext pipeline (Arr ys) True of
                                 Inl e \<Rightarrow> (c2, Inl e)
                               | Inr r \<Rightarrow> (c2\<lparr>c_result := Some r\<rparr>, Inr r))
                         else (c2, Inr (Arr ys)))))"
    unfolding Cursor_fetch_def assms option.case Let_def c1_def ..
  show ?thesis
  proof (cases "isArray (c_collection c)")
    case False
    then show ?thesis by (simp add: fetch c1)
  next
    case arr: True
    show ?thesis
    proof (cases "filter_test (c_query c) (case c_collection c of Arr xs \<Rightarrow> xs | _ \<Rightarrow> [])")
      case (Inl e)
      then show ?thesis by (simp add: fetch c1 arr)
    next
      case (Inr ys)
      show ?thesis
      proof (cases "select_stages ops [''$sort'', ''$skip'', ''$limit'', ''$project''] = []")
        case True
        then show ?thesis
          unfolding fetch c1 Let_def ops_def [symmetric] Inr using arr by simp
      next
        case False
        then show ?thesis
          unfolding fetch c1 Let_def ops_def [symmetric] Inr using arr
          by (cases "Aggregator_run h ext (select_stages ops [''$sort'', ''$skip'', ''$limit'', ''$project'']) (Arr ys) True") simp_all
      qed
    qed
  qed
qed


section \<open>The \<^verbatim>\<open>$eq\<close> operator on arrays\<close>

lemma findIndex_found: "(findIndex p xs i \<noteq> - 1) = (\<exists>x\<in>set xs. p x)"
  by (induction xs arbitrary: i) auto

text \<open>
  C4 (amended). Whenever the resolved field value \<open>a\<close> is an array,
  \<^verbatim>\<open>$eq(a, b)\<close> is true exactly when \<open>a\<close> itself is deep-equal to \<open>b\<close> or
  some element of \<open>a\<close> is deep-equal to \<open>b\<close>.
\<close>

theorem op_eq_array:
  "op_eq h (Arr xs) b = (isEqual h (Arr xs) b \<or> (\<exists>x\<in>set xs. isEqual h b x))"
  by (simp add: op_eq_def isArray_def isType_def findIndex_found)

theorem op_eq_array_witness:
  "op_eq example_host (Arr [Num (Fin 1), Num (Fin 2)]) (Num (Fin 2))"
  using op_eq_array [of example_host "[Num (Fin 1), Num (Fin 2)]" "Num (Fin 2)"]
  by (simp add: isEqual.simps)

text \<open>
  C4 as stated fails when the operand is an array equal to the field value:
  \<^verbatim>\<open>$eq([1, 2], [1, 2])\<close> is true although neither element of \<^verbatim>\<open>[1, 2]\<close> is
  deep-equal to \<^verbatim>\<open>[1, 2]\<close>.
\<close>

theorem op_eq_whole_array_counterexample:
  "op_eq example_host (Arr [Num (Fin 1), Num (Fin 2)]) (Arr [Num (Fin 1), Num (Fin 2)])
     \<noteq> (isEqual example_host (Arr [Num (Fin 1), Num (Fin 2)]) (Num (Fin 1))
         \<or> isEqual example_host (Arr [Num (Fin 1), Num (Fin 2)]) (Num (Fin 2)))"
  by (simp add: op_eq_def isEqual.simps)

text \<open>Deep equality is reflexive, so a value compared with itself (the same reference in
  the source) is equal whatever \<open>strict_equal\<close> answers for object references.\<close>

lemma isEqual_refl: "isEqual h v v"
proof (induction v rule: val.induct)
  case (Arr xs)
  then have "list_all2 (isEqual h) xs xs"
    by (simp add: list_all2_same)
  then show ?case by (subst isEqual.simps) simp
next
  case (Obj kvs)
  have keys: "isEqual h (Arr (map Str (sort (map fst kvs)))) (Arr (map Str (sort (map fst kvs))))"
    by (simp add: isEqual.simps list_all2_same)
  have props: "isEqual h (getProp kvs k) (getProp kvs k)" for k
  proof (cases "map_of kvs k")
    case None
    then show ?thesis by (simp add: getProp_def isEqual.simps)
  next
    case (Some v)
    then have "(k, v) \<in> set kvs" by (rule map_of_SomeD)
    with Obj have "isEqual h v v" by (auto simp: snds.simps)
    with Some show ?thesis by (simp add: getProp_def)
  qed
  show ?case
    by (subst isEqual.simps) (simp add: keys props list_all_iff)
qed (simp_all add: isEqual.simps isNaN_def)

section \<open>Empty criteria\<close>

lemma filter_test_no_predicates:
  "q_compiled q = [] \<Longrightarrow> filter_test q xs = Inr xs"
  by (induction xs) (simp_all add: Query_test_def)

text \<open>
  C9. For every document \<open>D\<close>, a query constructed from an empty criteria (a value
  for which \<^verbatim>\<open>isEmpty\<close> holds: \<^verbatim>\<open>undefined\<close>, \<^verbatim>\<open>null\<close>, the empty
  object) compiles no predicate, its test of \<open>D\<close> is true, and \<^verbatim>\<open>find\<close> with it
  over any array returns every document.
\<close>

theorem empty_criteria_matches_all:
  assumes "isEmpty criteria"
  shows "Query h qext criteria projection
           = Inr \<lparr>q_criteria = criteria, q_projection = projection, q_compiled = []\<rparr>
         \<and> Query_test \<lparr>q_criteria = criteria, q_projection = projection, q_compiled = []\<rparr> D
             = Inr True
         \<and> find h qext (Arr xs) criteria Undefined
             = Inr (Cursor (Arr xs)
                     \<lparr>q_criteria = criteria, q_projection = Undefined, q_compiled = []\<rparr> Undefined)
         \<and> snd (Cursor_all h ext (Cursor (Arr xs)
                     \<lparr>q_criteria = criteria, q_projection = Undefined, q_compiled = []\<rparr> Undefined))
             = Inr (Arr xs)"
proof -
  define q0 where "q0 = \<lparr>q_criteria = criteria, q_projection = Undefined, q_compiled = []\<rparr>"
  have q: "Query h qext criteria p
      = Inr \<lparr>q_criteria = criteria, q_projection = p, q_compiled = []\<rparr>" for p
    using assms by (simp add: Query_def compile_def)
  have t: "Query_test \<lparr>q_criteria = criteria, q_projection = projection, q_compiled = []\<rparr> D
      = Inr True"
    by (simp add: Query_test_def)
  have f: "find h qext (Arr xs) criteria Undefined = Inr (Cursor (Arr xs) q0 Undefined)"
    by (simp add: find_def q Query_find_def q0_def)
  have fresh: "c_result (Cursor (Arr xs) q0 Undefined) = None"
    by (simp add: Cursor_def)
  have "snd (Cursor_fetch h ext (Cursor (Arr xs) q0 Undefined)) = Inr (Arr xs)"
    unfolding Cursor_fetch_fresh [OF fresh]
    by (simp add: Cursor_def q0_def isArray_def isObject_def isType_def
        filter_test_no_predicates has_def)
  with q t f show ?thesis
    by (simp add: Cursor_all_def q0_def)
qed

theorem empty_criteria_matches_all_witness:
  "isEmpty (Obj [])
   \<and> Query example_host example_query_ops (Obj []) Undefined
       = Inr \<lparr>q_criteria = Obj [], q_projection = Undefined, q_compiled = []\<rparr>
   \<and> Query_test \<lparr>q_criteria = Obj [], q_projection = Undefined, q_compiled = []\<rparr>
        (Obj [(''a'', Num (Fin 1))]) = Inr True
   \<and> snd (Cursor_all example_host example_stages
            (Cursor (Arr [Obj [(''a'', Num (Fin 1))], Obj [(''a'', Num (Fin 2))]])
               \<lparr>q_criteria = Obj [], q_projection = Undefined, q_compiled = []\<rparr> Undefined))
       = Inr (Arr [Obj [(''a'', Num (Fin 1))], Obj [(''a'', Num (Fin 2))]])"
proof -
  have e: "isEmpty (Obj [])"
    by (simp add: isEmpty_def isObject_def isType_def)
  show ?thesis
    using e empty_criteria_matches_all [OF e, of example_host example_query_ops Undefined
        "Obj [(''a'', Num (Fin 1))]" "[Obj [(''a'', Num (Fin 1))], Obj [(''a'', Num (Fin 2))]]"
        example_stages]
    by simp
qed

section \<open>Validation of a projection\<close>

lemma inclusion_not_exclusion: "is_inclusion v \<Longrightarrow> \<not> is_exclusion v"
  by (auto simp: is_inclusion_def is_exclusion_def)

lemma project_check_mixed:
  assumes "\<not> (fst check \<and> snd check)"
    and "fst check \<or> (\<exists>k\<in>set ks. k \<noteq> idKey st \<and> is_exclusion (getProp kvs k))"
    and "snd check \<or> (\<exists>k\<in>set ks. k \<noteq> idKey st \<and> \<not> is_exclusion (getProp kvs k))"
  shows "project_check st (Obj kvs) ks check
     = Inl (Error ''Projection cannot have a mix of inclusion and exclusion.'')"
  using assms
proof (induction ks arbitrary: check)
  case Nil
  then show ?case by auto
next
  case (Cons k ks)
  show ?case
  proof (cases "k = idKey st")
    case True
    with Cons.prems have "project_check st (Obj kvs) ks check
        = Inl (Error ''Projection cannot have a mix of inclusion and exclusion.'')"
      by (intro Cons.IH) auto
    with True show ?thesis by simp
  next
    case False
    show ?thesis
    proof (cases "is_exclusion (getProp kvs k)")
      case True
      show ?thesis
      proof (cases "snd check")
        case True
        with \<open>is_exclusion (getProp kvs k)\<close> False show ?thesis by simp
      next
        case nc: False
        have "project_check st (Obj kvs) ks (True, False)
            = Inl (Error ''Projection cannot have a mix of inclusion and exclusion.'')"
          using Cons.prems nc True by (intro Cons.IH) auto
        with nc True False show ?thesis by (simp add: Let_def)
      qed
    next
      case ne: False
      show ?thesis
      proof (cases "fst check")
        case True
        with ne False show ?thesis by simp
      next
        case nc: False
        have "project_check st (Obj kvs) ks (False, True)
            = Inl (Error ''Projection cannot have a mix of inclusion and exclusion.'')"
          using Cons.prems nc ne by (intro Cons.IH) auto
        with nc ne False show ?thesis by (simp add: Let_def)
      qed
    qed
  qed
qed

lemma project_check_inclusions:
  assumes "\<not> fst check"
    and "\<forall>k\<in>set ks. k \<noteq> idKey st \<longrightarrow> \<not> is_exclusion (getProp kvs k)"
  shows "project_check st (Obj kvs) ks check = Inr ()"
  using assms
proof (induction ks arbitrary: check)
  case Nil
  show ?case by simp
next
  case (Cons k ks)
  then show ?case by (cases check) (simp add: Let_def)
qed

text \<open>
  C5. For every projection specification, \<^verbatim>\<open>$project\<close> raises the validation error
  when the specification has, among the keys other than the identity key, one with an
  inclusion value (\<^verbatim>\<open>1\<close>/\<^verbatim>\<open>true\<close>) and one with an exclusion value
  (\<^verbatim>\<open>0\<close>/\<^verbatim>\<open>false\<close>), whatever the collection. When the identity key is excluded and
  every other key has an inclusion value, validation raises nothing: the stage goes on to
  reshape each document, with the identity key removed from the keys to process.
\<close>

theorem project_mixed_validation:
  "(k1 \<in> set (map fst kvs) \<and> k2 \<in> set (map fst kvs) \<and> k1 \<noteq> idKey st \<and> k2 \<noteq> idKey st
      \<and> is_inclusion (getProp kvs k1) \<and> is_exclusion (getProp kvs k2)
    \<longrightarrow> project_stage st project_doc collection (Obj kvs)
          = Inl (Error ''Projection cannot have a mix of inclusion and exclusion.''))
   \<and> (idKey st \<in> set (map fst kvs) \<and> is_exclusion (getProp kvs (idKey st))
      \<and> (\<forall>k\<in>set (map fst kvs). k \<noteq> idKey st \<longrightarrow> is_inclusion (getProp kvs k))
    \<longrightarrow> project_stage st project_doc (Arr docs) (Obj kvs)
          = (case map_result
                    (project_doc (Obj kvs) (filter (\<lambda>k. k \<noteq> idKey st) (map fst kvs))
                       (filter (\<lambda>k. k \<noteq> idKey st) (map fst kvs) = []))
                    docs of
               Inl e \<Rightarrow> Inl e
             | Inr projected \<Rightarrow> Inr (Arr projected)))"
proof (intro conjI impI)
  assume a: "k1 \<in> set (map fst kvs) \<and> k2 \<in> set (map fst kvs) \<and> k1 \<noteq> idKey st \<and> k2 \<noteq> idKey st
      \<and> is_inclusion (getProp kvs k1) \<and> is_exclusion (getProp kvs k2)"
  then have ne: "\<not> isEmpty (Obj kvs)"
    by (auto simp: isEmpty_def isUnknown_def isNull_def isUndefined_def isArray_def isType_def)
  have "project_check st (Obj kvs) (map fst kvs) (False, False)
      = Inl (Error ''Projection cannot have a mix of inclusion and exclusion.'')"
    using a by (intro project_check_mixed) (auto dest: inclusion_not_exclusion)
  with ne show "project_stage st project_doc collection (Obj kvs)
      = Inl (Error ''Projection cannot have a mix of inclusion and exclusion.'')"
    by (simp add: project_stage_def)
next
  assume b: "idKey st \<in> set (map fst kvs) \<and> is_exclusion (getProp kvs (idKey st))
      \<and> (\<forall>k\<in>set (map fst kvs). k \<noteq> idKey st \<longrightarrow> is_inclusion (getProp kvs k))"
  then have ne: "\<not> isEmpty (Obj kvs)"
    by (auto simp: isEmpty_def isUnknown_def isNull_def isUndefined_def isArray_def isType_def)
  have chk: "project_check st (Obj kvs) (map fst kvs) (False, False) = Inr ()"
    using b by (intro project_check_inclusions) (auto dest: inclusion_not_exclusion)
  define ks' where "ks' = filter (\<lambda>k. k \<noteq> idKey st) (map fst kvs)"
  have f: "filter (\<lambda>k. k \<notin> set [idKey st]) (map fst kvs) = ks'"
    by (simp add: ks'_def)
  have e: "isEmpty (Arr (map Str ks')) = (ks' = [])"
    by (simp add: isEmpty_def isUnknown_def isNull_def isUndefined_def isArray_def
        isObject_def isType_def)
  have "idKey st \<notin> set ks'"
    by (simp add: ks'_def)
  then have "project_keys st (Obj kvs) (map fst kvs) = Inr (ks', ks' = [])"
    using b unfolding project_keys_def Let_def f e
    by simp
  then have ks: "project_keys st (Obj kvs) (map fst kvs)
      = Inr (filter (\<lambda>k. k \<noteq> idKey st) (map fst kvs),
             filter (\<lambda>k. k \<noteq> idKey st) (map fst kvs) = [])"
    by (simp only: ks'_def)
  show "project_stage st project_doc (Arr docs) (Obj kvs)
          = (case map_result
                    (project_doc (Obj kvs) (filter (\<lambda>k. k \<noteq> idKey st) (map fst kvs))
                       (filter (\<lambda>k. k \<noteq> idKey st) (map fst kvs) = []))
                    docs of
               Inl e \<Rightarrow> Inl e
             | Inr projected \<Rightarrow> Inr (Arr projected))"
    using ne by (simp add: project_stage_def chk ks)
qed

theorem project_mixed_validation_witness:
  "project_stage default_settings example_project_body (Arr [])
       (Obj [(''a'', Num (Fin 1)), (''b'', Num (Fin 0))])
     = Inl (Error ''Projection cannot have a mix of inclusion and exclusion.'')
   \<and> project_stage default_settings example_project_body (Arr [])
       (Obj [(''_id'', Num (Fin 0)), (''a'', Num (Fin 1))])
     = Inr (Arr [])"
  using project_mixed_validation [of "''a''" "[(''a'', Num (Fin 1)), (''b'', Num (Fin 0))]"
      "''b''" default_settings example_project_body "Arr []" "[]"]
    project_mixed_validation [of "''a''" "[(''_id'', Num (Fin 0)), (''a'', Num (Fin 1))]"
      "''b''" default_settings example_project_body "Arr []" "[]"]
  by (simp add: default_settings_def is_inclusion_def is_exclusion_def getProp_def)

section \<open>The divisor of the standard deviation\<close>

text \<open>The arithmetic of the host of the closed examples.\<close>

lemma RoundNumber_example [simp]: "RoundNumber example_host r = Fin r"
  by (simp add: example_host_def)

lemma MathPow_example [simp]: "MathPow example_host (Fin a) (Fin 2) = Fin (a * a)"
  by (simp add: example_host_def)

lemma MathSqrt_example [simp]: "0 \<le> a \<Longrightarrow> MathSqrt example_host (Fin a) = Fin (sqrt a)"
  by (simp add: example_host_def)

text \<open>The two folds of \<^verbatim>\<open>stddev\<close> are the sums of the formula.\<close>

lemma foldl_js_add_map:
  "foldl (\<lambda>acc n. js_add h acc (f n)) a xs = foldl (js_add h) a (map f xs)"
  by (induction xs arbitrary: a) simp_all

lemma stddev_eq_formula:
  "stddev h dataset sampled = stddev_formula h dataset (sampled = Bool True)"
proof -
  have t: "strict_equal sampled (Bool True) = (sampled = Bool True)"
    by (cases sampled) auto
  have n: "(if length dataset = 0 then 1 else length dataset) = dataset_N dataset"
    by (simp add: dataset_N_def)
  have s: "foldl (\<lambda>acc n. js_add h acc n) (Fin 0) dataset = js_sum h dataset"
    by (simp add: js_sum_def)
  have sq: "foldl (\<lambda>acc n. js_add h acc (MathPow h (js_sub h n m) (Fin 2))) (Fin 0) dataset
      = js_sum h (map (squared_deviation h m) dataset)" for m
    using foldl_js_add_map [of h "squared_deviation h m" "Fin 0" dataset]
    by (simp add: js_sum_def squared_deviation_def)
  show ?thesis
    unfolding stddev_def Let_def t n s sq stddev_formula_def stddev_mean_def
    by (rule refl)
qed

lemma js_sub_zero:
  "RoundNumber h a = Fin a \<Longrightarrow> js_sub h (Fin a) (Fin 0) = Fin a"
  by (simp add: js_sub_def)

text \<open>A dataset of eight numbers with mean 5 and standard deviation 2.\<close>

lemma dataset_N_example:
  "dataset_N [Fin 2, Fin 4, Fin 4, Fin 4, Fin 5, Fin 5, Fin 7, Fin 9] = 8"
  by (simp add: dataset_N_def)

lemma js_sum_example:
  "js_sum example_host [Fin 2, Fin 4, Fin 4, Fin 4, Fin 5, Fin 5, Fin 7, Fin 9] = Fin 40"
  by (simp add: js_sum_def)

lemma stddev_mean_example:
  "stddev_mean example_host [Fin 2, Fin 4, Fin 4, Fin 4, Fin 5, Fin 5, Fin 7, Fin 9] False = Fin 5"
  by (simp add: stddev_mean_def js_sum_example dataset_N_example js_sub_def)

lemma squared_deviation_example:
  "squared_deviation example_host (Fin 5) (Fin x) = Fin ((x - 5) * (x - 5))"
  by (simp add: squared_deviation_def js_sub_def)

lemma js_sum_squares_example:
  "js_sum example_host (map (squared_deviation example_host (Fin 5))
       [Fin 2, Fin 4, Fin 4, Fin 4, Fin 5, Fin 5, Fin 7, Fin 9]) = Fin 32"
  by (simp add: squared_deviation_example js_sum_def)

lemma sqrt_four: "sqrt 4 = 2"
  using real_sqrt_abs [of 2] by simp

lemma stddev_example:
  "stddev example_host [Fin 2, Fin 4, Fin 4, Fin 4, Fin 5, Fin 5, Fin 7, Fin 9] (Bool False) = Fin 2"
proof -
  have "stddev_formula example_host [Fin 2, Fin 4, Fin 4, Fin 4, Fin 5, Fin 5, Fin 7, Fin 9] False
      = Fin 2"
    unfolding stddev_formula_def stddev_mean_example js_sum_squares_example dataset_N_example
    by (simp add: sqrt_four)
  then show ?thesis
    by (simp add: stddev_eq_formula)
qed

text \<open>
  C7. For every dataset of numbers, \<^verbatim>\<open>stddev\<close> returns the square root of the sum of
  the squared deviations from the mean divided by \<open>N\<close>, the length of the dataset (1
  when it is empty); the flag \<^verbatim>\<open>sampled\<close> changes only the mean, which is the sum
  divided by \<open>N - 1\<close> when the flag is \<^verbatim>\<open>true\<close> and by \<open>N\<close> otherwise. The sum,
  the differences, the quotients, the squares and the root are those of doubles, computed
  in the order of the code; that the divisor \<open>N - 0\<close> of the mean is \<open>N\<close> uses that the
  integer \<open>N\<close> is a double.
\<close>

theorem stddev_divides_by_N:
  "stddev h dataset sampled
     = MathSqrt h (js_div h
         (js_sum h (map (squared_deviation h (stddev_mean h dataset (sampled = Bool True))) dataset))
         (Fin (real (dataset_N dataset))))
   \<and> dataset_N dataset = (if dataset = [] then 1 else length dataset)
   \<and> stddev_mean h dataset True
     = js_div h (js_sum h dataset) (js_sub h (Fin (real (dataset_N dataset))) (Fin 1))
   \<and> (RoundNumber h (real (dataset_N dataset)) = Fin (real (dataset_N dataset)) \<longrightarrow>
        stddev_mean h dataset False = js_div h (js_sum h dataset) (Fin (real (dataset_N dataset))))"
proof (intro conjI impI)
  show "stddev h dataset sampled
     = MathSqrt h (js_div h
         (js_sum h (map (squared_deviation h (stddev_mean h dataset (sampled = Bool True))) dataset))
         (Fin (real (dataset_N dataset))))"
    unfolding stddev_eq_formula stddev_formula_def by (rule refl)
  show "dataset_N dataset = (if dataset = [] then 1 else length dataset)"
    by (rule dataset_N_def)
  show "stddev_mean h dataset True
     = js_div h (js_sum h dataset) (js_sub h (Fin (real (dataset_N dataset))) (Fin 1))"
    by (simp add: stddev_mean_def)
  show "stddev_mean h dataset False = js_div h (js_sum h dataset) (Fin (real (dataset_N dataset)))"
    if "RoundNumber h (real (dataset_N dataset)) = Fin (real (dataset_N dataset))"
    using that by (simp add: stddev_mean_def js_sub_zero)
qed

theorem stddev_divides_by_N_witness:
  "RoundNumber example_host
       (real (dataset_N [Fin 2, Fin 4, Fin 4, Fin 4, Fin 5, Fin 5, Fin 7, Fin 9]))
     = Fin (real (dataset_N [Fin 2, Fin 4, Fin 4, Fin 4, Fin 5, Fin 5, Fin 7, Fin 9]))
   \<and> stddev example_host [Fin 2, Fin 4, Fin 4, Fin 4, Fin 5, Fin 5, Fin 7, Fin 9] (Bool False)
     = Fin 2
   \<and> stddev_mean example_host [Fin 2, Fin 4, Fin 4, Fin 4, Fin 5, Fin 5, Fin 7, Fin 9] False
     = js_div example_host
         (js_sum example_host [Fin 2, Fin 4, Fin 4, Fin 4, Fin 5, Fin 5, Fin 7, Fin 9]) (Fin 8)"
  using stddev_divides_by_N
    [of example_host "[Fin 2, Fin 4, Fin 4, Fin 4, Fin 5, Fin 5, Fin 7, Fin 9]" "Bool False"]
  by (simp add: stddev_example dataset_N_example)

section \<open>\<^verbatim>\<open>$sqrt\<close> and \<^verbatim>\<open>$trunc\<close>\<close>

text \<open>What the two operators do on an operand that is \<^verbatim>\<open>null\<close> or a number:
  \<^verbatim>\<open>null\<close> gives \<^verbatim>\<open>null\<close>, \<^verbatim>\<open>NaN\<close> gives \<^verbatim>\<open>NaN\<close>, a number that is not
  strictly positive raises the assertion, and a strictly positive number gives its square
  root as \<^verbatim>\<open>Math.sqrt\<close> computes it, respectively its integer part.\<close>

lemma sqrt_trunc_on_null_and_numbers:
  assumes "cv obj expr Null = Inr n"
  shows "n = Null \<longrightarrow> op_sqrt h cv obj expr = Inr Null \<and> op_trunc h cv obj expr = Inr Null"
    and "n = Num NaN \<longrightarrow>
           op_sqrt h cv obj expr = Inr (Num NaN) \<and> op_trunc h cv obj expr = Inr (Num NaN)"
    and "n = Num (Fin r) \<and> r \<le> 0 \<longrightarrow>
           op_sqrt h cv obj expr
             = Inl (Error ''$sqrt must be a valid expression that resolves to a non-negative number.'')
           \<and> op_trunc h cv obj expr
             = Inl (Error ''$trunc must be a valid expression that resolves to a non-negative number.'')"
    and "n = Num (Fin r) \<and> 0 < r \<longrightarrow>
           op_sqrt h cv obj expr = Inr (Num (MathSqrt h (Fin r)))
           \<and> op_trunc h cv obj expr = Inr (Num (Fin (of_int \<lfloor>r\<rfloor>)))"
  using assms
  by (auto simp: op_sqrt_def op_trunc_def isNaN_def isUnknown_def isNull_def isUndefined_def
      isNumber_def isType_def js_gt_def js_lt_def number_of_def trunc_def)

text \<open>
  C6 fails in the code for an \<^verbatim>\<open>undefined\<close> operand. The operators test
  \<^verbatim>\<open>isNaN(n)\<close> before \<^verbatim>\<open>isUnknown(n)\<close>, and the global \<^verbatim>\<open>isNaN\<close> converts
  \<^verbatim>\<open>undefined\<close> to \<^verbatim>\<open>NaN\<close>: over a document without the field \<^verbatim>\<open>x\<close>,
  \<^verbatim>\<open>{$sqrt: "$x"}\<close> and \<^verbatim>\<open>{$trunc: "$x"}\<close> evaluate to \<^verbatim>\<open>NaN\<close>, not to
  \<^verbatim>\<open>null\<close>.
\<close>

theorem sqrt_trunc_undefined_operand:
  "computeValue example_host (aggregateOperators example_host example_aggregate_ops)
       example_group_ops 3 (Obj []) (Obj [(''$sqrt'', Str ''$x'')]) Null Undefined
     = Inr (Num NaN)
   \<and> computeValue example_host (aggregateOperators example_host example_aggregate_ops)
       example_group_ops 3 (Obj []) (Obj [(''$trunc'', Str ''$x'')]) Null Undefined
     = Inr (Num NaN)"
  by (simp add: aggregateOperators_def op_sqrt_def op_trunc_def isNaN_def resolve_def
      all_digits_def is_digit_def isArray_def isUndefined_def starts_with_def
      includes_name_def ops_aggregate_def ops_group_def isString_def isType_def
      Let_def getProp_def numeral_nat)

section \<open>The two source files\<close>

text \<open>
  C10 fails in the code. The two files default the step of \<^verbatim>\<open>$range\<close> differently:
  \<^verbatim>\<open>[start, end, step = 1]\<close> in the first keeps a step of \<open>0\<close>, and
  \<^verbatim>\<open>arr[2] || 1\<close> in the second replaces it by \<open>1\<close>. On the expression
  \<^verbatim>\<open>{$range: [0, 3, 0]}\<close> the first file evaluates to \<^verbatim>\<open>[]\<close> and the second to
  \<^verbatim>\<open>[0, 1, 2]\<close>.
\<close>

theorem computeValue_range_zero_step_differs:
  "computeValue example_host (aggregateOperators example_host example_aggregate_ops)
       example_group_ops 10 (Obj [])
       (Obj [(''$range'', Arr [Num (Fin 0), Num (Fin 3), Num (Fin 0)])]) Null Undefined
     = Inr (Arr [])
   \<and> computeValue example_host (aggregateOperators_es5 example_host example_aggregate_ops)
       example_group_ops 10 (Obj [])
       (Obj [(''$range'', Arr [Num (Fin 0), Num (Fin 3), Num (Fin 0)])]) Null Undefined
     = Inr (Arr [Num (Fin 0), Num (Fin 1), Num (Fin 2)])"
  by (simp add: aggregateOperators_def aggregateOperators_es5_def op_range_def op_range_es5_def
      nth_or_undefined_def js_lt_def js_gt_def js_plus_def array_index_def all_digits_def
      is_digit_def digits_value_def
      includes_name_def ops_aggregate_def ops_group_def isString_def isType_def
      Let_def getProp_def numeral_nat)

section \<open>The expression of \<^verbatim>\<open>$group\<close> after a run\<close>

lemma has_delProp: "\<not> has (delProp kvs k) k"
  by (auto simp: has_def delProp_def)

lemma getProp_delProp_same: "getProp (delProp kvs k) k = Undefined"
proof -
  have "map_of (delProp kvs k) k = None"
    using has_delProp [of kvs k] by (simp add: has_def map_of_eq_None_iff)
  then show ?thesis by (simp add: getProp_def)
qed

text \<open>
  C8. \<^verbatim>\<open>$group\<close> changes the expression object of its caller: whenever
  \<^verbatim>\<open>$group(collection, expr)\<close> returns, the identity key (the configured key,
  \<^verbatim>\<open>_id\<close> by default) is no longer a property of \<open>expr\<close>, and reading it, as a
  second run over the same stage object does, gives \<^verbatim>\<open>undefined\<close>.
\<close>

theorem group_deletes_identity_key:
  assumes "snd (group_stage h st aops gops fuel collection (Obj kvs)) = Inr r"
  shows "fst (group_stage h st aops gops fuel collection (Obj kvs)) = Obj (delProp kvs (idKey st))
         \<and> \<not> has (delProp kvs (idKey st)) (idKey st)
         \<and> getValue (fst (group_stage h st aops gops fuel collection (Obj kvs))) (idKey st)
             = Inr Undefined"
proof -
  have "fst (group_stage h st aops gops fuel collection (Obj kvs)) = Obj (delProp kvs (idKey st))"
    using assms
    by (auto simp: group_stage_def Let_def delete_prop_def split: sum.splits)
  then show ?thesis
    by (simp add: has_delProp getProp_delProp_same)
qed

text \<open>Hash codes of some values, and two runs of \<^verbatim>\<open>$group\<close> over two documents:
  the run with \<^verbatim>\<open>{_id: "$a"}\<close> groups by the field, the run with the expression it
  leaves behind puts every document in one group without identity.\<close>

lemma hash_1: "hashcode example_host (Num (Fin 1)) = ''1616784221''"
  by (simp add: hashcode_def encode_def json_quote_def json_char_def hash_step_def num_str_def
      int_str_def nat_str.simps digit_char_def)

lemma hash_2: "hashcode example_host (Num (Fin 2)) = ''-190670241''"
  by (simp add: hashcode_def encode_def json_quote_def json_char_def hash_step_def num_str_def
      int_str_def nat_str.simps digit_char_def)

lemma hash_undefined: "hashcode example_host Undefined = ''-727436062''"
  by (simp add: hashcode_def encode_def hash_step_def int_str_def nat_str.simps digit_char_def)

lemma computeValue_path_a:
  "computeValue h aops gops (Suc n) (Obj [(''a'', v)]) (Str ''$a'') (Str ''$a'') Undefined = Inr v"
  by (simp add: includes_name_def ops_aggregate_def ops_group_def isString_def isType_def
      starts_with_def resolve_def all_digits_def is_digit_def isArray_def isUndefined_def
      getProp_def Let_def)

lemma computeValue_undefined:
  "computeValue h aops gops (Suc n) obj Undefined Undefined Undefined = Inr Undefined"
  by (simp add: includes_name_def isString_def isType_def)

lemma group_first_run:
  "group_stage example_host default_settings
       (aggregateOperators example_host example_aggregate_ops) example_group_ops 2
       (Arr [Obj [(''a'', Num (Fin 1))], Obj [(''a'', Num (Fin 2))]])
       (Obj [(''_id'', Str ''$a'')])
     = (Obj [], Inr (Arr [Obj [(''_id'', Num (Fin 1))], Obj [(''_id'', Num (Fin 2))]]))"
  by (simp add: group_stage_def default_settings_def getProp_def groupBy_def numeral_2_eq_2
      computeValue_path_a hash_1 hash_2 Let_def delete_prop_def delProp_def group_document_def
      isUndefined_def isType_def del: computeValue.simps)

lemma group_second_run:
  "group_stage example_host default_settings
       (aggregateOperators example_host example_aggregate_ops) example_group_ops 2
       (Arr [Obj [(''a'', Num (Fin 1))], Obj [(''a'', Num (Fin 2))]])
       (Obj [])
     = (Obj [], Inr (Arr [Obj []]))"
  by (simp add: group_stage_def default_settings_def getProp_def groupBy_def numeral_2_eq_2
      computeValue_undefined hash_undefined Let_def delete_prop_def delProp_def group_document_def
      isUndefined_def isType_def del: computeValue.simps)

theorem group_deletes_identity_key_witness:
  "snd (group_stage example_host default_settings
          (aggregateOperators example_host example_aggregate_ops) example_group_ops 2
          (Arr [Obj [(''a'', Num (Fin 1))], Obj [(''a'', Num (Fin 2))]])
          (Obj [(''_id'', Str ''$a'')]))
     = Inr (Arr [Obj [(''_id'', Num (Fin 1))], Obj [(''_id'', Num (Fin 2))]])
   \<and> fst (group_stage example_host default_settings
          (aggregateOperators example_host example_aggregate_ops) example_group_ops 2
          (Arr [Obj [(''a'', Num (Fin 1))], Obj [(''a'', Num (Fin 2))]])
          (Obj [(''_id'', Str ''$a'')]))
     = Obj []
   \<and> snd (group_stage example_host default_settings
          (aggregateOperators example_host example_aggregate_ops) example_group_ops 2
          (Arr [Obj [(''a'', Num (Fin 1))], Obj [(''a'', Num (Fin 2))]])
          (Obj []))
     = Inr (Arr [Obj []])"
proof -
  have r: "snd (group_stage example_host default_settings
          (aggregateOperators example_host example_aggregate_ops) example_group_ops 2
          (Arr [Obj [(''a'', Num (Fin 1))], Obj [(''a'', Num (Fin 2))]])
          (Obj [(''_id'', Str ''$a'')]))
     = Inr (Arr [Obj [(''_id'', Num (Fin 1))], Obj [(''_id'', Num (Fin 2))]])"
    by (simp add: group_first_run)
  show ?thesis
    using group_deletes_identity_key [OF r]
    by (simp add: group_first_run group_second_run)
qed

section \<open>Sorting twice\<close>

subsection \<open>Stable sorting by several keys\<close>

lemma firsts_snoc: "firsts (ys @ [y]) = (if y \<in> set (firsts ys) then firsts ys else firsts ys @ [y])"
  by (simp add: firsts_def)

lemma firsts_Nil [simp]: "firsts [] = []"
  by (simp add: firsts_def)

lemma set_firsts [simp]: "set (firsts ys) = set ys"
  by (induction ys rule: rev_induct) (auto simp: firsts_snoc)

lemma distinct_firsts [simp]: "distinct (firsts ys)"
  by (induction ys rule: rev_induct) (auto simp: firsts_snoc)

lemma index_of_less: "a \<in> set xs \<Longrightarrow> index_of xs a < length xs"
  by (induction xs) auto

lemma nth_index_of: "a \<in> set xs \<Longrightarrow> xs ! index_of xs a = a"
  by (induction xs) auto

lemma index_of_inj: "a \<in> set xs \<Longrightarrow> b \<in> set xs \<Longrightarrow> index_of xs a = index_of xs b \<Longrightarrow> a = b"
  by (induction xs) (auto split: if_splits)

lemma index_of_append_notin:
  "a \<notin> set xs \<Longrightarrow> index_of (xs @ ys) a = length xs + index_of ys a"
  by (induction xs) auto

text \<open>sorting by a less significant key first, then stably by a more significant one\<close>

lemma sorted_lex_keys:
  fixes f :: "'a \<Rightarrow> nat" and K :: "'a \<Rightarrow> nat list"
  assumes "sorted (map f ys)" and "\<And>a. sorted (map K (filter (\<lambda>x. f x = a) ys))"
  shows "sorted (map (\<lambda>x. f x # K x) ys)"
  using assms
proof (induction ys)
  case Nil
  show ?case by simp
next
  case (Cons y ys)
  have tail: "sorted (map (\<lambda>x. f x # K x) ys)"
  proof (rule Cons.IH)
    show "sorted (map f ys)" using Cons.prems(1) by simp
    show "sorted (map K (filter (\<lambda>x. f x = a) ys))" for a
      using Cons.prems(2) [of a] by (simp split: if_splits)
  qed
  have "f y # K y \<le> f z # K z" if z: "z \<in> set ys" for z
  proof (cases "f y = f z")
    case True
    have "sorted (map K (filter (\<lambda>x. f x = f y) (y # ys)))"
      by (rule Cons.prems(2))
    then have "\<forall>w\<in>set (filter (\<lambda>x. f x = f y) ys). K y \<le> K w"
      by simp
    with z True have "K y \<le> K z" by simp
    with True show ?thesis by simp
  next
    case False
    moreover have "f y \<le> f z" using Cons.prems(1) z by simp
    ultimately show ?thesis by simp
  qed
  with tail show ?case by simp
qed

lemma sort_key_lsd:
  fixes f :: "'a \<Rightarrow> nat" and K :: "'a \<Rightarrow> nat list"
  shows "sort_key f (sort_key K xs) = sort_key (\<lambda>x. f x # K x) xs"
proof (rule sym, rule properties_for_sort_key)
  show "mset (sort_key f (sort_key K xs)) = mset xs"
    by simp
  show "filter (\<lambda>x. f k # K k = f x # K x) (sort_key f (sort_key K xs))
      = filter (\<lambda>x. f k # K k = f x # K x) xs" for k
  proof -
    have split: "filter (\<lambda>x. f k # K k = f x # K x) zs
        = filter (\<lambda>x. K x = K k) (filter (\<lambda>x. f x = f k) zs)" for zs
      by (induction zs) auto
    have comm: "filter (\<lambda>x. K x = K k) (filter (\<lambda>x. f x = f k) zs)
        = filter (\<lambda>x. f x = f k) (filter (\<lambda>x. K x = K k) zs)" for zs
      by (induction zs) auto
    have "filter (\<lambda>x. f k # K k = f x # K x) (sort_key f (sort_key K xs))
        = filter (\<lambda>x. K x = K k) (filter (\<lambda>x. f x = f k) (sort_key K xs))"
      unfolding split sort_key_stable ..
    also have "\<dots> = filter (\<lambda>x. f x = f k) (filter (\<lambda>x. K x = K k) xs)"
      unfolding comm sort_key_stable ..
    also have "\<dots> = filter (\<lambda>x. f k # K k = f x # K x) xs"
      unfolding split comm ..
    finally show ?thesis .
  qed
  show "sorted (map (\<lambda>x. f x # K x) (sort_key f (sort_key K xs)))"
  proof (rule sorted_lex_keys)
    show "sorted (map f (sort_key f (sort_key K xs)))"
      by simp
    show "sorted (map K (filter (\<lambda>x. f x = a) (sort_key f (sort_key K xs))))" for a
      by (simp add: sort_key_stable sorted_filter)
  qed
qed


text \<open>concatenating the groups in the order of a list of keys\<close>

lemma filter_filter_key:
  "filter (\<lambda>x. f x = c) (filter (\<lambda>x. f x = k) xs) = (if c = k then filter (\<lambda>x. f x = c) xs else [])"
  by (induction xs) auto

lemma filter_groups_notin:
  "c \<notin> set IK \<Longrightarrow>
   filter (\<lambda>x. f x = c) (concat (map (\<lambda>k. filter (\<lambda>x. f x = k) xs) IK)) = []"
  by (induction IK) (auto simp: filter_filter_key)

lemma filter_groups:
  "distinct IK \<Longrightarrow> c \<in> set IK \<Longrightarrow>
   filter (\<lambda>x. f x = c) (concat (map (\<lambda>k. filter (\<lambda>x. f x = k) xs) IK))
     = filter (\<lambda>x. f x = c) xs"
  by (induction IK) (auto simp: filter_filter_key filter_groups_notin filter_empty_conv)

lemma mset_filter_key:
  "k \<notin> S \<Longrightarrow>
   mset (filter (\<lambda>x. f x = k) xs) + mset (filter (\<lambda>x. f x \<in> S) xs)
     = mset (filter (\<lambda>x. f x = k \<or> f x \<in> S) xs)"
  by (induction xs) auto

lemma mset_groups:
  "distinct IK \<Longrightarrow>
   mset (concat (map (\<lambda>k. filter (\<lambda>x. f x = k) xs) IK)) = mset (filter (\<lambda>x. f x \<in> set IK) xs)"
proof (induction IK)
  case Nil
  show ?case by simp
next
  case (Cons k IK)
  then have "k \<notin> set IK" and IH: "mset (concat (map (\<lambda>k. filter (\<lambda>x. f x = k) xs) IK))
      = mset (filter (\<lambda>x. f x \<in> set IK) xs)"
    by simp_all
  then show ?case
    using mset_filter_key [of k "set IK" f xs] by simp
qed

lemma sorted_groups:
  "distinct (pre @ IK) \<Longrightarrow>
   sorted (map (\<lambda>x. index_of (pre @ IK) (f x)) (concat (map (\<lambda>k. filter (\<lambda>x. f x = k) xs) IK)))"
proof (induction IK arbitrary: pre)
  case Nil
  show ?case by simp
next
  case (Cons k IK)
  have d: "distinct ((pre @ [k]) @ IK)" using Cons.prems by simp
  have tail: "sorted (map (\<lambda>x. index_of (pre @ k # IK) (f x))
      (concat (map (\<lambda>k. filter (\<lambda>x. f x = k) xs) IK)))"
    using Cons.IH [OF d] by simp
  have k: "index_of (pre @ k # IK) k = length pre"
    using Cons.prems by (simp add: index_of_append_notin)
  have hd: "sorted (map (\<lambda>x. index_of (pre @ k # IK) (f x)) (filter (\<lambda>x. f x = k) xs))"
    by (induction xs) (auto simp: k)
  have le: "length pre \<le> index_of (pre @ k # IK) (f y)" if "f y \<in> set IK" for y
  proof -
    have "f y \<notin> set pre" using that Cons.prems by auto
    then show ?thesis by (simp add: index_of_append_notin)
  qed
  have cross: "a \<le> b"
    if "a \<in> set (map (\<lambda>x. index_of (pre @ k # IK) (f x)) (filter (\<lambda>x. f x = k) xs))"
      and "b \<in> set (map (\<lambda>x. index_of (pre @ k # IK) (f x))
        (concat (map (\<lambda>k. filter (\<lambda>x. f x = k) xs) IK)))" for a b
  proof -
    have "a = length pre" using that(1) k by auto
    moreover have "length pre \<le> b" using that(2) le by auto
    ultimately show ?thesis by simp
  qed
  have "concat (map (\<lambda>k. filter (\<lambda>x. f x = k) xs) (k # IK))
      = filter (\<lambda>x. f x = k) xs @ concat (map (\<lambda>k. filter (\<lambda>x. f x = k) xs) IK)"
    by simp
  then show ?case
    by (simp only: map_append sorted_append hd tail simp_thms) (blast intro: cross)
qed

lemma concat_groups_sort_key:
  assumes "distinct IK" and "f ` set xs \<subseteq> set IK"
  shows "concat (map (\<lambda>k. filter (\<lambda>x. f x = k) xs) IK) = sort_key (\<lambda>x. index_of IK (f x)) xs"
proof (rule sym, rule properties_for_sort_key)
  let ?ys = "concat (map (\<lambda>k. filter (\<lambda>x. f x = k) xs) IK)"
  have "filter (\<lambda>x. f x \<in> set IK) xs = xs"
    using assms(2) by (auto simp: filter_id_conv)
  then show "mset ?ys = mset xs"
    using mset_groups [OF assms(1), of f xs] by simp
  show "sorted (map (\<lambda>x. index_of IK (f x)) ?ys)"
    using sorted_groups [of "[]" IK f xs] assms(1) by simp
  show "filter (\<lambda>x. index_of IK (f c) = index_of IK (f x)) ?ys
      = filter (\<lambda>x. index_of IK (f c) = index_of IK (f x)) xs" if c: "c \<in> set ?ys" for c
  proof -
    have fc: "f c \<in> set IK" using c by auto
    have eq: "(index_of IK (f c) = index_of IK (f x)) = (f x = f c)" if "f x \<in> set IK" for x
      using index_of_inj [OF fc that] by auto
    have "filter (\<lambda>x. index_of IK (f c) = index_of IK (f x)) ?ys = filter (\<lambda>x. f x = f c) ?ys"
      by (rule filter_cong) (auto simp: eq)
    also have "\<dots> = filter (\<lambda>x. f x = f c) xs"
      by (rule filter_groups [OF assms(1) fc])
    also have "\<dots> = filter (\<lambda>x. index_of IK (f c) = index_of IK (f x)) xs"
      using assms(2) by (intro filter_cong) (auto simp: eq)
    finally show ?thesis .
  qed
qed

text \<open>sorting distinct keys by an injective rank depends on the set of keys only\<close>

lemma filter_eq_distinct:
  "distinct K \<Longrightarrow> filter (\<lambda>x. x = k) K = (if k \<in> set K then [k] else [])"
  by (induction K) auto

lemma sort_key_set_determined:
  fixes r :: "'a \<Rightarrow> 'b::linorder"
  assumes "distinct K" and "distinct K'" and "set K = set K'" and "inj_on r (set K)"
  shows "sort_key r K = sort_key r K'"
proof (rule properties_for_sort_key)
  show "mset (sort_key r K') = mset K"
    using assms by (simp add: set_eq_iff_mset_eq_distinct)
  show "sorted (map r (sort_key r K'))" by simp
  show "filter (\<lambda>x. r k = r x) (sort_key r K') = filter (\<lambda>x. r k = r x) K"
    if "k \<in> set (sort_key r K')" for k
  proof -
    have k: "k \<in> set K" using that assms(3) by simp
    have eq: "(r k = r x) = (x = k)" if "x \<in> set K" for x
      using assms(4) k that by (auto dest: inj_onD)
    have a: "filter (\<lambda>x. r k = r x) K = filter (\<lambda>x. x = k) K"
      by (rule filter_cong) (auto simp: eq)
    have b: "filter (\<lambda>x. r k = r x) K' = filter (\<lambda>x. x = k) K'"
      using assms(3) by (intro filter_cong) (auto simp: eq)
    have "filter (\<lambda>x. r k = r x) (sort_key r K') = filter (\<lambda>x. r k = r x) K'"
      using sort_key_stable [of r "r k" K'] by (simp add: eq_commute)
    then show ?thesis
      using a b k assms by (simp add: filter_eq_distinct)
  qed
qed

text \<open>insertion by a comparison function that agrees with a rank\<close>

lemma insert_by_insort:
  "(\<And>b. b \<in> set ys \<Longrightarrow> (cmp x b \<le> 0) = (r x \<le> r b)) \<Longrightarrow>
   insert_by cmp x ys = insort_key r x ys"
  by (induction ys) auto

lemma sort_by_sort_key:
  "(\<And>a b. a \<in> set L \<Longrightarrow> b \<in> set L \<Longrightarrow> (cmp a b \<le> 0) = (r a \<le> r b)) \<Longrightarrow>
   sort_by cmp L = sort_key r L"
proof (induction L)
  case Nil
  show ?case by (simp add: sort_by_def)
next
  case (Cons x L)
  have IH: "sort_by cmp L = sort_key r L"
  proof (rule Cons.IH)
    fix a b
    assume "a \<in> set L" "b \<in> set L"
    then show "(cmp a b \<le> 0) = (r a \<le> r b)"
      using Cons.prems [of a b] by simp
  qed
  have "insert_by cmp x (sort_key r L) = insort_key r x (sort_key r L)"
  proof (rule insert_by_insort)
    fix b
    assume "b \<in> set (sort_key r L)"
    then show "(cmp x b \<le> 0) = (r x \<le> r b)"
      using Cons.prems [of x b] by simp
  qed
  then show ?case
    using IH by (simp add: sort_by_def)
qed

text \<open>the elements of greatest rank may be moved to the end beforehand\<close>

lemma sorted_map_const:
  fixes r :: "'a \<Rightarrow> 'b::linorder"
  shows "(\<And>x. x \<in> set ys \<Longrightarrow> r x = m) \<Longrightarrow> sorted (map r ys)"
  by (induction ys) auto

lemma sort_key_top_last:
  fixes r :: "'a \<Rightarrow> 'b::linorder"
  assumes "\<And>x. x \<in> set xs \<Longrightarrow> P x \<Longrightarrow> r x < m" and "\<And>x. x \<in> set xs \<Longrightarrow> \<not> P x \<Longrightarrow> r x = m"
  shows "sort_key r (filter P xs) @ filter (\<lambda>x. \<not> P x) xs = sort_key r xs"
proof (rule sym, rule properties_for_sort_key)
  let ?ys = "sort_key r (filter P xs) @ filter (\<lambda>x. \<not> P x) xs"
  show "mset ?ys = mset xs" by simp
  have "sorted (map r (filter (\<lambda>x. \<not> P x) xs))"
    by (rule sorted_map_const [of _ _ m]) (simp add: assms(2))
  then show "sorted (map r ?ys)"
    using assms by (auto simp: sorted_append intro: less_imp_le)
  show "filter (\<lambda>x. r k = r x) ?ys = filter (\<lambda>x. r k = r x) xs" if "k \<in> set ?ys" for k
  proof -
    have st: "filter (\<lambda>x. r k = r x) (sort_key r (filter P xs)) = filter (\<lambda>x. r k = r x) (filter P xs)"
      using sort_key_stable [of r "r k" "filter P xs"] by (simp add: eq_commute)
    have k: "k \<in> set xs" using that by auto
    have "filter (\<lambda>x. r k = r x) (filter P xs) @ filter (\<lambda>x. r k = r x) (filter (\<lambda>x. \<not> P x) xs)
        = filter (\<lambda>x. r k = r x) xs"
    proof (cases "P k")
      case True
      then have lt: "r k < m" using assms(1) k by simp
      have "filter (\<lambda>x. r k = r x) (filter (\<lambda>x. \<not> P x) xs) = []"
        using assms(2) lt by (auto simp: filter_empty_conv)
      moreover have "filter (\<lambda>x. r k = r x) (filter P xs) = filter (\<lambda>x. r k = r x) xs"
        unfolding filter_filter using assms(2) lt by (intro filter_cong) fastforce+
      ultimately show ?thesis by simp
    next
      case False
      then have eq: "r k = m" using assms(2) k by simp
      have "filter (\<lambda>x. r k = r x) (filter P xs) = []"
        using assms(1) eq by (fastforce simp: filter_empty_conv)
      moreover have "filter (\<lambda>x. r k = r x) (filter (\<lambda>x. \<not> P x) xs) = filter (\<lambda>x. r k = r x) xs"
        unfolding filter_filter using assms(1) eq by (intro filter_cong) fastforce+
      ultimately show ?thesis by simp
    qed
    then show ?thesis using st by simp
  qed
qed

subsection \<open>The steps of \<^verbatim>\<open>$sort\<close> as stable sorts\<close>

text \<open>\<^verbatim>\<open>clone\<close> returns an equal value.\<close>

lemma clone_id: "clone v = v"
  by (induction v) (auto intro!: map_idI)

text \<open>\<^verbatim>\<open>groupBy\<close> when the hash codes of the keys are distinct\<close>

lemma map_of_zip_index:
  "inj_on g (set K) \<Longrightarrow> a \<in> set K \<Longrightarrow>
   map_of (zip (map g K) [n..<n + length K]) (g a) = Some (n + index_of K a)"
proof (induction K arbitrary: n)
  case Nil
  then show ?case by simp
next
  case (Cons k K)
  have upt: "[n..<n + length (k # K)] = n # [Suc n..<Suc n + length K]"
    using upt_conv_Cons [of n "n + length (k # K)"] by simp
  show ?case
  proof (cases "k = a")
    case True
    then show ?thesis unfolding upt by simp
  next
    case False
    then have a: "a \<in> set K" using Cons.prems(2) by simp
    have inj: "inj_on g (set K)" using Cons.prems(1) by (simp add: inj_on_def)
    have "g k \<noteq> g a"
      using Cons.prems(1) a False by (auto simp: inj_on_def)
    then show ?thesis
      unfolding upt using Cons.IH [OF inj a, of "Suc n"] False by simp
  qed
qed

lemma map_of_zip_none:
  assumes "g a \<notin> g ` set K"
  shows "map_of (zip (map g K) [n..<n + length K]) (g a) = None"
proof -
  have "map fst (zip (map g K) [n..<n + length K]) = map g K"
    by (rule map_fst_zip) simp
  then have "set (map fst (zip (map g K) [n..<n + length K])) = g ` set K"
    by simp
  then have "fst ` set (zip (map g K) [n..<n + length K]) = g ` set K"
    by (simp only: set_map)
  then show ?thesis
    using assms by (simp only: map_of_eq_None_iff) simp
qed

lemma grouped_Nil: "grouped f [] = \<lparr>p_keys = [], p_groups = []\<rparr>"
  by (simp add: grouped_def)

lemma grouped_snoc_new:
  assumes "f x \<notin> f ` set pre"
  shows "grouped f (pre @ [x])
     = \<lparr>p_keys = p_keys (grouped f pre) @ [f x], p_groups = p_groups (grouped f pre) @ [[x]]\<rparr>"
proof -
  have ne: "\<forall>y\<in>set pre. f y \<noteq> f x"
    using assms by (metis imageI)
  then have B: "filter (\<lambda>y. f y = f x) pre = []"
    by (simp add: filter_empty_conv)
  have C: "firsts (map f (pre @ [x])) = firsts (map f pre) @ [f x]"
    using assms by (simp add: firsts_snoc)
  show ?thesis
    unfolding grouped_def C using ne by (auto simp: B)
qed

lemma grouped_snoc_old:
  assumes "f x \<in> f ` set pre"
  shows "grouped f (pre @ [x])
     = (grouped f pre)\<lparr>p_groups :=
          (p_groups (grouped f pre))[index_of (p_keys (grouped f pre)) (f x) :=
             p_groups (grouped f pre) ! index_of (p_keys (grouped f pre)) (f x) @ [x]]\<rparr>"
proof -
  let ?K = "firsts (map f pre)"
  have in_K: "f x \<in> set ?K" using assms by simp
  have "map (\<lambda>k. filter (\<lambda>y. f y = k) (pre @ [x])) ?K
      = (map (\<lambda>k. filter (\<lambda>y. f y = k) pre) ?K)[index_of ?K (f x) :=
          map (\<lambda>k. filter (\<lambda>y. f y = k) pre) ?K ! index_of ?K (f x) @ [x]]"
  proof (rule nth_equalityI)
    show "length (map (\<lambda>k. filter (\<lambda>y. f y = k) (pre @ [x])) ?K)
        = length ((map (\<lambda>k. filter (\<lambda>y. f y = k) pre) ?K)[index_of ?K (f x) :=
          map (\<lambda>k. filter (\<lambda>y. f y = k) pre) ?K ! index_of ?K (f x) @ [x]])"
      by simp
  next
    fix j
    assume "j < length (map (\<lambda>k. filter (\<lambda>y. f y = k) (pre @ [x])) ?K)"
    then have j: "j < length ?K" by simp
    have i: "index_of ?K (f x) < length ?K" by (rule index_of_less [OF in_K])
    have at: "?K ! index_of ?K (f x) = f x" by (rule nth_index_of [OF in_K])
    have "(?K ! j = f x) = (j = index_of ?K (f x))"
      using nth_eq_iff_index_eq [OF distinct_firsts j i] at by simp
    then show "map (\<lambda>k. filter (\<lambda>y. f y = k) (pre @ [x])) ?K ! j
        = (map (\<lambda>k. filter (\<lambda>y. f y = k) pre) ?K)[index_of ?K (f x) :=
          map (\<lambda>k. filter (\<lambda>y. f y = k) pre) ?K ! index_of ?K (f x) @ [x]] ! j"
      using j i at by (auto simp: nth_list_update)
  qed
  then show ?thesis
    using in_K by (simp add: grouped_def firsts_snoc)
qed

lemma groupBy_loop_grouped:
  assumes "\<And>x. x \<in> set xs \<Longrightarrow> fn x = Inr (f x)"
    and "inj_on (hashcode h) (f ` set (pre @ xs))"
  shows "groupBy_loop h fn xs (grouped f pre) (lookup_of h (p_keys (grouped f pre)))
     = Inr (grouped f (pre @ xs))"
  using assms
proof (induction xs arbitrary: pre)
  case Nil
  show ?case by simp
next
  case (Cons x xs)
  let ?K = "p_keys (grouped f pre)"
  have K: "set ?K = f ` set pre" by (simp add: grouped_def)
  have fx: "fn x = Inr (f x)" using Cons.prems(1) by simp
  have inj: "inj_on (hashcode h) (f ` set ((pre @ [x]) @ xs))" using Cons.prems(2) by simp
  have IH: "groupBy_loop h fn xs (grouped f (pre @ [x])) (lookup_of h (p_keys (grouped f (pre @ [x]))))
      = Inr (grouped f (pre @ x # xs))"
    using Cons.IH [of "pre @ [x]", OF _ inj] Cons.prems(1) by simp
  show ?case
  proof (cases "f x \<in> f ` set pre")
    case True
    have injK: "inj_on (hashcode h) (set ?K)"
      using Cons.prems(2) unfolding K by (auto simp: inj_on_def)
    have look: "map_of (lookup_of h ?K) (hashcode h (f x)) = Some (index_of ?K (f x))"
      using map_of_zip_index [OF injK, of "f x" 0] True K by (simp add: lookup_of_def)
    have keys: "p_keys (grouped f (pre @ [x])) = ?K"
      using True by (simp add: grouped_def firsts_snoc)
    show ?thesis
      using IH by (simp add: fx look grouped_snoc_old [OF True] keys)
  next
    case False
    have "hashcode h (f x) \<notin> hashcode h ` set ?K"
    proof
      assume "hashcode h (f x) \<in> hashcode h ` set ?K"
      then obtain y where y: "y \<in> set pre" "hashcode h (f x) = hashcode h (f y)"
        unfolding K by auto
      then have "f x = f y"
        using Cons.prems(2) by (auto simp: inj_on_def)
      then show False using False y(1) by auto
    qed
    then have look: "map_of (lookup_of h ?K) (hashcode h (f x)) = None"
      using map_of_zip_none [of "hashcode h" "f x" ?K 0] by (simp add: lookup_of_def)
    have next_lookup: "lookup_of h ?K @ [(hashcode h (f x), length ?K)]
        = lookup_of h (p_keys (grouped f (pre @ [x])))"
      by (simp add: grouped_snoc_new [OF False] lookup_of_def)
    show ?thesis
      using IH by (simp add: fx look grouped_snoc_new [OF False, symmetric] next_lookup)
  qed
qed

lemma groupBy_grouped:
  assumes "\<And>x. x \<in> set xs \<Longrightarrow> fn x = Inr (f x)"
    and "inj_on (hashcode h) (f ` set xs)"
  shows "groupBy h (Arr xs) fn = Inr (grouped f xs)"
proof -
  have "groupBy_loop h fn xs \<lparr>p_keys = [], p_groups = []\<rparr> [] = Inr (grouped f xs)"
    using groupBy_loop_grouped [of xs fn f h "[]"] assms
    by (simp add: grouped_Nil lookup_of_def)
  then show ?thesis
    by (simp add: groupBy_def grouped_def)
qed

lemma groupBy_loop_fails:
  "x \<in> set xs \<Longrightarrow> fn x = Inl e \<Longrightarrow> \<exists>e'. groupBy_loop h fn xs res lookup = Inl e'"
proof (induction xs arbitrary: res lookup)
  case Nil
  then show ?case by simp
next
  case (Cons y ys)
  show ?case
  proof (cases "fn y")
    case (Inl e')
    then show ?thesis by simp
  next
    case (Inr k)
    then have "x \<in> set ys" using Cons.prems by auto
    then show ?thesis
      using Cons.IH Cons.prems(2) Inr by (simp add: Let_def split: option.splits)
  qed
qed

lemma groupBy_fails:
  "x \<in> set xs \<Longrightarrow> fn x = Inl e \<Longrightarrow> \<exists>e'. groupBy h (Arr xs) fn = Inl e'"
  using groupBy_loop_fails [of x xs fn e h "\<lparr>p_keys = [], p_groups = []\<rparr>" "[]"]
  by (auto simp: groupBy_def)

text \<open>\<^verbatim>\<open>sortBy\<close> on keys with distinct hash codes that are strictly ordered\<close>

lemma sort_keys_lookup:
  assumes "\<forall>e\<in>set acc. fst e = hashcode h (fst (snd e))"
    and "inj_on (hashcode h) ((\<lambda>e. fst (snd e)) ` set acc \<union> set vs)"
    and "a \<in> (\<lambda>e. fst (snd e)) ` set acc \<union> set vs"
  shows "\<exists>i. map_of (sort_keys h (\<lambda>item i. item) vs n acc) (hashcode h a) = Some (a, i)"
  using assms
proof (induction vs arbitrary: n acc)
  case Nil
  then obtain e where e: "e \<in> set acc" "fst (snd e) = a" by auto
  then have "fst e = hashcode h a" using Nil.prems(1) by auto
  then have "(hashcode h a, snd e) \<in> set acc" using e(1) by (metis prod.collapse)
  then obtain y where y: "map_of acc (hashcode h a) = Some y"
    using weak_map_of_SomeI by fastforce
  then have mem: "(hashcode h a, y) \<in> set acc" by (rule map_of_SomeD)
  then have "hashcode h a = hashcode h (fst y)" using Nil.prems(1) by fastforce
  moreover have "fst y \<in> (\<lambda>e. fst (snd e)) ` set acc" using mem by force
  ultimately have "a = fst y"
    using Nil.prems(2,3) by (auto simp: inj_on_def)
  then have "y = (a, snd y)" by simp
  then show ?case using y by (metis sort_keys.simps(1))
next
  case (Cons v vs)
  let ?V = "\<lambda>acc. (\<lambda>e. fst (snd e)) ` set acc"
  show ?case
  proof (cases "hashcode h v \<in> set (map fst acc)")
    case True
    then obtain e where e: "e \<in> set acc" "fst e = hashcode h v" by auto
    then have "hashcode h v = hashcode h (fst (snd e))" using Cons.prems(1) by auto
    moreover have "fst (snd e) \<in> ?V acc" using e(1) by auto
    ultimately have "v = fst (snd e)"
      using Cons.prems(2) by (auto simp: inj_on_def)
    then have v: "v \<in> ?V acc" using e(1) by auto
    have inj: "inj_on (hashcode h) (?V acc \<union> set vs)"
      using Cons.prems(2) by (auto simp: inj_on_def)
    have a: "a \<in> ?V acc \<union> set vs" using Cons.prems(3) v by auto
    show ?thesis
      using Cons.IH [OF Cons.prems(1) inj a, of "Suc n"] True by simp
  next
    case False
    let ?acc = "acc @ [(hashcode h v, v, n)]"
    have inv: "\<forall>e\<in>set ?acc. fst e = hashcode h (fst (snd e))"
      using Cons.prems(1) by auto
    have V: "?V ?acc \<union> set vs = ?V acc \<union> set (v # vs)" by auto
    have inj: "inj_on (hashcode h) (?V ?acc \<union> set vs)"
      unfolding V by (rule Cons.prems(2))
    have a: "a \<in> ?V ?acc \<union> set vs"
      unfolding V by (rule Cons.prems(3))
    show ?thesis
      using Cons.IH [OF inv inj a, of "Suc n"] False by simp
  qed
qed

lemma num_lt_irrefl: "\<not> num_lt n n"
  by (cases n) simp_all

lemma num_lt_NaN: "\<not> num_lt n NaN"
  by (cases n) simp_all

lemma js_lt_irrefl: "\<not> js_lt h a a"
  by (cases "ToPrimitive h True a") (simp_all add: js_lt_def num_lt_irrefl)

lemma js_lt_undefined: "\<not> js_lt h Undefined b" "\<not> js_lt h a Undefined"
  by (cases "ToPrimitive h True b"; simp add: js_lt_def)
    (cases "ToPrimitive h True a"; simp add: js_lt_def num_lt_NaN)

lemma rank_less:
  assumes "finite V" and "strictly_ordered h V" and "a \<in> V" and "b \<in> V" and "js_lt h a b"
  shows "rank h V a < rank h V b"
proof -
  have ne: "a \<noteq> Undefined" "b \<noteq> Undefined"
    using assms(5) js_lt_undefined by auto
  have "{c \<in> V. js_lt h c a} \<subseteq> {c \<in> V. js_lt h c b}"
    using assms(2-5) unfolding strictly_ordered_def by blast
  moreover have "a \<in> {c \<in> V. js_lt h c b}" "a \<notin> {c \<in> V. js_lt h c a}"
    using assms(3,5) js_lt_irrefl by auto
  ultimately have "{c \<in> V. js_lt h c a} \<subset> {c \<in> V. js_lt h c b}"
    by blast
  then have "card {c \<in> V. js_lt h c a} < card {c \<in> V. js_lt h c b}"
    using assms(1) by (intro psubset_card_mono) simp_all
  then show ?thesis
    using ne by (simp add: rank_def)
qed

lemma rank_less_undefined:
  assumes "finite V" and "a \<in> V" and "a \<noteq> Undefined"
  shows "rank h V a < rank h V Undefined"
proof -
  have "{c \<in> V. js_lt h c a} \<subset> V"
    using assms(2) js_lt_irrefl by blast
  then have "card {c \<in> V. js_lt h c a} < card V"
    using assms(1) by (intro psubset_card_mono)
  then show ?thesis
    using assms(3) by (simp add: rank_def)
qed

lemma rank_inj:
  assumes "finite V" and "strictly_ordered h V"
  shows "inj_on (rank h V) V"
proof (rule inj_onI)
  fix a b
  assume ab: "a \<in> V" "b \<in> V" "rank h V a = rank h V b"
  show "a = b"
  proof (rule ccontr)
    assume ne: "a \<noteq> b"
    consider "a = Undefined" | "b = Undefined"
      | "a \<noteq> Undefined" "b \<noteq> Undefined" by blast
    then show False
    proof cases
      case 1
      then show ?thesis
        using rank_less_undefined [OF assms(1) ab(2), of h] ne ab(3) by auto
    next
      case 2
      then show ?thesis
        using rank_less_undefined [OF assms(1) ab(1), of h] ne ab(3) by auto
    next
      case 3
      then have "js_lt h a b \<or> js_lt h b a"
        using assms(2) ab(1,2) ne unfolding strictly_ordered_def by blast
      then show ?thesis
        using rank_less [OF assms ab(1,2)] rank_less [OF assms ab(2,1)] ab(3) by auto
    qed
  qed
qed

lemma map_clone: "map clone xs = xs"
  by (induction xs) (simp_all add: clone_id)

lemma p_keys_grouped: "p_keys (grouped f xs) = firsts (map f xs)"
  by (simp add: grouped_def)

lemma p_groups_grouped:
  "p_groups (grouped f xs) = map (\<lambda>k. filter (\<lambda>x. f x = k) xs) (firsts (map f xs))"
  by (simp add: grouped_def)

lemma sortBy_compare_rank:
  assumes look: "\<And>a. a \<in> V \<Longrightarrow> \<exists>i. map_of sk (hashcode h a) = Some (a, i)"
    and fin: "finite V" and ord: "strictly_ordered h V"
    and ab: "a \<in> V" "b \<in> V" "a \<noteq> Undefined" "b \<noteq> Undefined"
  shows "(sortBy_compare h sk a b \<le> 0) = (rank h V a \<le> rank h V b)"
proof -
  obtain i where i: "map_of sk (hashcode h a) = Some (a, i)" using look ab(1) by blast
  obtain j where j: "map_of sk (hashcode h b) = Some (b, j)" using look ab(2) by blast
  have val: "sortBy_compare h sk a b =
      (if js_lt h a b then - 1 else if js_lt h b a then 1
       else if i < j then - 1 else if i > j then 1 else 0)"
    by (simp add: sortBy_compare_def i j js_gt_def)
  show ?thesis
  proof (cases "a = b")
    case True
    then have "i = j" using i j by simp
    then have "sortBy_compare h sk a b = 0"
      unfolding val using True by (simp add: js_lt_irrefl)
    then show ?thesis
      using True by simp
  next
    case False
    then consider "js_lt h a b" | "js_lt h b a" "\<not> js_lt h a b"
      using ord ab unfolding strictly_ordered_def by blast
    then show ?thesis
    proof cases
      case 1
      then show ?thesis
        using rank_less [OF fin ord ab(1,2)] by (simp add: val)
    next
      case 2
      then show ?thesis
        using rank_less [OF fin ord ab(2,1)] by (simp add: val)
    qed
  qed
qed

lemma sortBy_keys:
  assumes "inj_on (hashcode h) (set K)" and "strictly_ordered h (set K)"
  shows "sortBy h K (\<lambda>item i. item) = Inr (sort_key (rank h (set K)) K)"
proof -
  let ?sk = "sort_keys h (\<lambda>item i. item) K 0 []"
  let ?cmp = "sortBy_compare h ?sk"
  let ?r = "rank h (set K)"
  have look: "\<exists>i. map_of ?sk (hashcode h a) = Some (a, i)" if "a \<in> set K" for a
    using sort_keys_lookup [of "[]" h K a 0] assms(1) that by simp
  have "sort_by ?cmp (filter (\<lambda>x. x \<noteq> Undefined) K) = sort_key ?r (filter (\<lambda>x. x \<noteq> Undefined) K)"
  proof (rule sort_by_sort_key)
    fix a b
    assume "a \<in> set (filter (\<lambda>x. x \<noteq> Undefined) K)" "b \<in> set (filter (\<lambda>x. x \<noteq> Undefined) K)"
    then have "a \<in> set K" "b \<in> set K" "a \<noteq> Undefined" "b \<noteq> Undefined" by simp_all
    then show "(?cmp a b \<le> 0) = (?r a \<le> ?r b)"
      using sortBy_compare_rank [of "set K" ?sk h a b] look assms(2) by blast
  qed
  moreover have "sort_key ?r (filter (\<lambda>x. x \<noteq> Undefined) K) @ filter (\<lambda>x. \<not> x \<noteq> Undefined) K
      = sort_key ?r K"
  proof (rule sort_key_top_last)
    show "?r x < ?r Undefined" if "x \<in> set K" "x \<noteq> Undefined" for x
      using rank_less_undefined [of "set K" x h] that by simp
    show "?r x = ?r Undefined" if "\<not> x \<noteq> Undefined" for x
      using that by simp
  qed
  ultimately have "array_sort ?cmp K = sort_key ?r K"
    by (simp add: array_sort_def)
  then show ?thesis
    by (simp add: sortBy_def map_clone Let_def)
qed

text \<open>the index of the group of a key\<close>

lemma sorted_index_notin:
  "hashcode h a \<notin> hashcode h ` set vs \<Longrightarrow> sorted_index h vs i m (hashcode h a) = m (hashcode h a)"
  by (induction vs arbitrary: i m) auto

lemma sorted_index_index:
  "distinct vs \<Longrightarrow> inj_on (hashcode h) (set vs) \<Longrightarrow> a \<in> set vs \<Longrightarrow>
   sorted_index h vs i m (hashcode h a) = Some (i + index_of vs a)"
proof (induction vs arbitrary: i m)
  case Nil
  then show ?case by simp
next
  case (Cons v vs)
  have inj: "inj_on (hashcode h) (set vs)" using Cons.prems(2) by (simp add: inj_on_def)
  show ?case
  proof (cases "v = a")
    case True
    then have "hashcode h a \<notin> hashcode h ` set vs"
      using Cons.prems(1,2) by (auto simp: inj_on_def)
    then show ?thesis
      using True by (simp add: sorted_index_notin)
  next
    case False
    then have "a \<in> set vs" using Cons.prems(3) by simp
    then show ?thesis
      using Cons.IH [OF _ inj, of "Suc i"] Cons.prems(1) False by simp
  qed
qed

text \<open>one step of \<^verbatim>\<open>$sort\<close> is a stable sort by the position of the key\<close>

lemma resolves_value: "resolves k x \<Longrightarrow> resolve x k False = Inr (sort_value k x)"
  by (simp add: resolves_def sort_value_def split: sum.splits)

lemma set_pass_keys: "set (pass_keys h k direction xs) = sort_value k ` set xs"
  by (simp add: pass_keys_def Let_def)

lemma distinct_pass_keys: "distinct (pass_keys h k direction xs)"
  by (simp add: pass_keys_def Let_def)

lemma sort_pass_sort_key:
  assumes ok: "\<And>x. x \<in> set xs \<Longrightarrow> resolves k x"
    and inj: "inj_on (hashcode h) (sort_value k ` set xs)"
    and cmp: "strictly_ordered h (sort_value k ` set xs)"
  shows "sort_pass h k direction (Arr xs) = Inr (Arr (sort_key (pass_rank h k direction xs) xs))"
proof -
  let ?f = "sort_value k"
  let ?K = "firsts (map ?f xs)"
  let ?IK = "pass_keys h k direction xs"
  have K: "set ?K = ?f ` set xs" by simp
  have g: "groupBy h (Arr xs) (\<lambda>obj. resolve obj k False) = Inr (grouped ?f xs)"
    by (rule groupBy_grouped) (simp_all add: ok resolves_value inj)
  have s: "sortBy h ?K (\<lambda>item i. item) = Inr (sort_key (rank h (?f ` set xs)) ?K)"
    using sortBy_keys [of h ?K] inj cmp by simp
  have group: "(case sorted_index h ?K 0 Map.empty (hashcode h item) of
                  None \<Rightarrow> [] | Some i \<Rightarrow> p_groups (grouped ?f xs) ! i)
               = filter (\<lambda>x. ?f x = item) xs" if "item \<in> set ?IK" for item
  proof -
    have item: "item \<in> set ?K" using that by (simp add: set_pass_keys)
    have "sorted_index h ?K 0 Map.empty (hashcode h item) = Some (index_of ?K item)"
      using sorted_index_index [of ?K h item 0 Map.empty] item inj by simp
    then show ?thesis
      using index_of_less [OF item] nth_index_of [OF item] by (simp add: p_groups_grouped)
  qed
  have "concat (map (\<lambda>item. case sorted_index h ?K 0 Map.empty (hashcode h item) of
                  None \<Rightarrow> [] | Some i \<Rightarrow> p_groups (grouped ?f xs) ! i) ?IK)
      = concat (map (\<lambda>item. filter (\<lambda>x. ?f x = item) xs) ?IK)"
    using group by (auto intro!: arg_cong [where f = concat] map_cong)
  also have "\<dots> = sort_key (\<lambda>x. index_of ?IK (?f x)) xs"
    by (rule concat_groups_sort_key) (simp_all add: distinct_pass_keys set_pass_keys)
  finally have "concat (map (\<lambda>item. case sorted_index h ?K 0 Map.empty (hashcode h item) of
                  None \<Rightarrow> [] | Some i \<Rightarrow> p_groups (grouped ?f xs) ! i) ?IK)
      = sort_key (pass_rank h k direction xs) xs"
    by (simp add: pass_rank_def [abs_def])
  moreover have "(if strict_equal direction (Num (Fin (- 1)))
      then rev (sort_key (rank h (?f ` set xs)) ?K)
      else sort_key (rank h (?f ` set xs)) ?K) = ?IK"
    by (simp add: pass_keys_def Let_def)
  ultimately show ?thesis
    by (simp add: sort_pass_def g s p_keys_grouped Let_def)
qed

lemma sort_pass_fails:
  assumes "x \<in> set xs" and "\<not> resolves k x"
  shows "\<exists>e. sort_pass h k direction (Arr xs) = Inl e"
proof -
  obtain e where "resolve x k False = Inl e"
    using assms(2) by (auto simp: resolves_def split: sum.splits)
  then obtain e' where "groupBy h (Arr xs) (\<lambda>obj. resolve obj k False) = Inl e'"
    using groupBy_fails [OF assms(1), of "\<lambda>obj. resolve obj k False" e h] by auto
  then show ?thesis by (simp add: sort_pass_def)
qed

lemma pass_keys_cong:
  assumes "set xs = set ys" and "strictly_ordered h (sort_value k ` set xs)"
  shows "pass_keys h k direction xs = pass_keys h k direction ys"
proof -
  let ?V = "sort_value k ` set xs"
  have "inj_on (rank h ?V) (set (firsts (map (sort_value k) xs)))"
    using rank_inj [OF _ assms(2)] by simp
  moreover have "set (firsts (map (sort_value k) xs)) = set (firsts (map (sort_value k) ys))"
    using assms(1) by simp
  ultimately have "sort_key (rank h ?V) (firsts (map (sort_value k) xs))
      = sort_key (rank h ?V) (firsts (map (sort_value k) ys))"
    by (intro sort_key_set_determined distinct_firsts)
  then show ?thesis
    using assms(1) by (simp add: pass_keys_def)
qed

text \<open>the steps of \<^verbatim>\<open>$sort\<close> together are a stable sort by the list of positions\<close>

lemma sort_passes_append:
  "sort_passes h spec (ks @ ks') c =
     (case sort_passes h spec ks c of Inl e \<Rightarrow> Inl e | Inr c' \<Rightarrow> sort_passes h spec ks' c')"
  by (induction ks arbitrary: c) (simp_all split: sum.splits)

lemma pass_rank_cong:
  assumes "set xs = set ys" and "strictly_ordered h (sort_value k ` set xs)"
  shows "pass_rank h k direction xs = pass_rank h k direction ys"
  using pass_keys_cong [OF assms, of direction] by (simp add: pass_rank_def fun_eq_iff)

lemma passes_rank_cong:
  assumes "set xs = set ys" and "\<And>k. k \<in> set ks \<Longrightarrow> strictly_ordered h (sort_value k ` set xs)"
  shows "passes_rank h spec ks xs = passes_rank h spec ks ys"
proof -
  have "pass_rank h k (getProp spec k) xs = pass_rank h k (getProp spec k) ys" if "k \<in> set ks" for k
    using pass_rank_cong [OF assms(1) assms(2) [OF that]] .
  then have "map (\<lambda>k. pass_rank h k (getProp spec k) xs d) ks
      = map (\<lambda>k. pass_rank h k (getProp spec k) ys d) ks" for d
    by (intro map_cong) simp_all
  then show ?thesis
    by (simp add: passes_rank_def fun_eq_iff)
qed

lemma sort_passes_sort_key:
  assumes "\<And>k x. k \<in> set ks \<Longrightarrow> x \<in> set xs \<Longrightarrow> resolves k x"
    and "\<And>k. k \<in> set ks \<Longrightarrow> inj_on (hashcode h) (sort_value k ` set xs)"
    and "\<And>k. k \<in> set ks \<Longrightarrow> strictly_ordered h (sort_value k ` set xs)"
  shows "sort_passes h spec ks (Arr xs) = Inr (Arr (sort_key (passes_rank h spec ks xs) xs))"
  using assms
proof (induction ks rule: rev_induct)
  case Nil
  have "sorted (map (passes_rank h spec [] xs) xs)"
    by (rule sorted_map_const [of _ _ "[]"]) (simp add: passes_rank_def)
  then show ?case
    by (simp add: sort_key_id_if_sorted)
next
  case (snoc k ks)
  let ?V = "passes_rank h spec ks xs"
  let ?ys = "sort_key ?V xs"
  let ?d = "getProp spec k"
  have IH: "sort_passes h spec ks (Arr xs) = Inr (Arr ?ys)"
    by (rule snoc.IH) (simp_all add: snoc.prems)
  have ys: "set ?ys = set xs" by simp
  have pass: "sort_pass h k ?d (Arr ?ys) = Inr (Arr (sort_key (pass_rank h k ?d ?ys) ?ys))"
    by (rule sort_pass_sort_key) (simp_all add: snoc.prems)
  have rank: "pass_rank h k ?d ?ys = pass_rank h k ?d xs"
    by (rule pass_rank_cong) (simp_all add: snoc.prems)
  have vec: "passes_rank h spec (ks @ [k]) xs = (\<lambda>x. pass_rank h k ?d xs x # ?V x)"
    by (simp add: passes_rank_def fun_eq_iff)
  show ?case
    unfolding sort_passes_append IH vec
    by (simp add: pass rank sort_key_lsd)
qed

lemma sort_passes_fails:
  assumes bad: "\<exists>k\<in>set ks. \<exists>x\<in>set xs. \<not> resolves k x"
    and inj: "\<And>k. k \<in> set ks \<Longrightarrow> inj_on (hashcode h) (sort_value k ` set xs)"
    and cmp: "\<And>k. k \<in> set ks \<Longrightarrow> strictly_ordered h (sort_value k ` set xs)"
  shows "\<exists>e. sort_passes h spec ks (Arr xs) = Inl e"
proof -
  obtain ks1 k ks2 where split: "ks = ks1 @ k # ks2"
    and k: "\<exists>x\<in>set xs. \<not> resolves k x"
    and before: "\<forall>k'\<in>set ks1. \<not> (\<exists>x\<in>set xs. \<not> resolves k' x)"
    using split_list_first_prop [OF bad] by blast
  let ?ys = "sort_key (passes_rank h spec ks1 xs) xs"
  have first: "sort_passes h spec ks1 (Arr xs) = Inr (Arr ?ys)"
  proof (rule sort_passes_sort_key)
    show "resolves k' x" if "k' \<in> set ks1" "x \<in> set xs" for k' x
      using before that by blast
    show "inj_on (hashcode h) (sort_value k' ` set xs)" if "k' \<in> set ks1" for k'
      using inj [of k'] that split by simp
    show "strictly_ordered h (sort_value k' ` set xs)" if "k' \<in> set ks1" for k'
      using cmp [of k'] that split by simp
  qed
  obtain x where "x \<in> set ?ys" "\<not> resolves k x" using k by auto
  then obtain e where "sort_pass h k (getProp spec k) (Arr ?ys) = Inl e"
    using sort_pass_fails by blast
  then show ?thesis
    unfolding split sort_passes_append first by simp
qed

lemma sort_passes_twice:
  assumes inj: "\<And>k. k \<in> set ks \<Longrightarrow> inj_on (hashcode h) (sort_value k ` set xs)"
    and cmp: "\<And>k. k \<in> set ks \<Longrightarrow> strictly_ordered h (sort_value k ` set xs)"
  shows "(case sort_passes h spec ks (Arr xs) of Inl e \<Rightarrow> Inl e
          | Inr c \<Rightarrow> sort_passes h spec ks c) = sort_passes h spec ks (Arr xs)"
proof (cases "\<exists>k\<in>set ks. \<exists>x\<in>set xs. \<not> resolves k x")
  case True
  then obtain e where "sort_passes h spec ks (Arr xs) = Inl e"
    using sort_passes_fails [OF True inj cmp] by blast
  then show ?thesis by simp
next
  case False
  let ?V = "passes_rank h spec ks xs"
  let ?ys = "sort_key ?V xs"
  have ys: "set ?ys = set xs" by simp
  have first: "sort_passes h spec ks (Arr xs) = Inr (Arr ?ys)"
    by (rule sort_passes_sort_key) (use False inj cmp in blast)+
  have second: "sort_passes h spec ks (Arr ?ys) = Inr (Arr (sort_key (passes_rank h spec ks ?ys) ?ys))"
  proof (rule sort_passes_sort_key)
    show "resolves k x" if "k \<in> set ks" "x \<in> set ?ys" for k x
      using False that by simp
    show "inj_on (hashcode h) (sort_value k ` set ?ys)" if "k \<in> set ks" for k
      using inj [OF that] by simp
    show "strictly_ordered h (sort_value k ` set ?ys)" if "k \<in> set ks" for k
      using cmp [OF that] by simp
  qed
  have "passes_rank h spec ks ?ys = ?V"
    by (rule passes_rank_cong) (simp_all add: cmp)
  moreover have "sort_key ?V ?ys = ?ys"
    by (rule sort_key_id_if_sorted) simp
  ultimately show ?thesis
    by (simp add: first second)
qed

lemma sort_stage_twice:
  assumes "\<And>k. k \<in> set (sort_fields S) \<Longrightarrow> inj_on (hashcode h) (sort_value k ` set xs)"
    and "\<And>k. k \<in> set (sort_fields S) \<Longrightarrow> strictly_ordered h (sort_value k ` set xs)"
  shows "(case sort_stage h (Arr xs) S of Inl e \<Rightarrow> Inl e | Inr c \<Rightarrow> sort_stage h c S)
     = sort_stage h (Arr xs) S"
proof (cases "\<not> isEmpty S \<and> isObject S")
  case False
  then have "sort_stage h c S = Inr c" for c
    by (auto simp: sort_stage_def)
  then show ?thesis by simp
next
  case True
  show ?thesis
  proof (cases "\<exists>spec. S = Obj spec")
    case False
    then have "sort_stage h c S = Inr c" for c
      by (cases S) (simp_all add: sort_stage_def)
    then show ?thesis by simp
  next
    case yes: True
    then obtain spec where S: "S = Obj spec" by blast
    have stage: "sort_stage h c S = sort_passes h spec (rev (map fst spec)) c" for c
      using True by (simp add: sort_stage_def S)
    show ?thesis
      unfolding stage by (rule sort_passes_twice) (use assms S in simp_all)
  qed
qed

lemma aggregate_sort_once:
  "aggregate h ext c (Arr [Obj [(''$sort'', S)]]) = sort_stage h c S"
  by (simp add: aggregate_def Aggregator_run_def isArray_def isType_def ops_pipeline_def
      pipelineOperators_def getProp_def isEmpty_def isUnknown_def isNull_def isUndefined_def
      isObject_def split: sum.splits)

lemma aggregate_sort_twice:
  "aggregate h ext c (Arr [Obj [(''$sort'', S)], Obj [(''$sort'', S)]])
     = (case sort_stage h c S of Inl e \<Rightarrow> Inl e | Inr c' \<Rightarrow> sort_stage h c' S)"
  by (simp add: aggregate_def Aggregator_run_def isArray_def isType_def ops_pipeline_def
      pipelineOperators_def getProp_def isEmpty_def isUnknown_def isNull_def isUndefined_def
      isObject_def split: sum.splits)

subsection \<open>Tied values\<close>

text \<open>Hash codes of \<^verbatim>\<open>null\<close>, \<open>0\<close> and \<open>1\<close>.\<close>

lemma hash_null: "hashcode h Null = ''-1507126747''"
  by (simp add: hashcode_def encode_def json_quote_def json_char_def hash_step_def
      int_str_def nat_str.simps digit_char_def)

lemma hash_zero: "hashcode h (Num (Fin 0)) = ''-870728613''"
  by (simp add: hashcode_def encode_def json_quote_def json_char_def hash_step_def
      int_str_def nat_str.simps digit_char_def num_str_def)

lemma hash_one: "hashcode h (Num (Fin 1)) = ''1616784221''"
  by (simp add: hashcode_def encode_def json_quote_def json_char_def hash_step_def
      int_str_def nat_str.simps digit_char_def num_str_def)

text \<open>
  \<^verbatim>\<open>null\<close> and \<open>0\<close> are tied: neither is smaller than the other. The comparison
  function of \<^verbatim>\<open>sortBy\<close> then orders them by their first occurrence in the collection,
  and \<^verbatim>\<open>$sort\<close> reverses that order when the direction is \<open>-1\<close>: each run of
  \<^verbatim>\<open>{$sort: {a: -1}}\<close> swaps the two documents.
\<close>

lemma sort_tie_stage:
  "sort_stage h (Arr [Obj [(''a'', Null)], Obj [(''a'', Num (Fin 0))]])
       (Obj [(''a'', Num (Fin (- 1)))])
     = Inr (Arr [Obj [(''a'', Num (Fin 0))], Obj [(''a'', Null)]])"
  "sort_stage h (Arr [Obj [(''a'', Num (Fin 0))], Obj [(''a'', Null)]])
       (Obj [(''a'', Num (Fin (- 1)))])
     = Inr (Arr [Obj [(''a'', Null)], Obj [(''a'', Num (Fin 0))]])"
proof -
  have r: "resolve (Obj [(''a'', Null)]) ''a'' False = Inr Null"
    "resolve (Obj [(''a'', Num (Fin 0))]) ''a'' False = Inr (Num (Fin 0))"
    by (simp_all add: resolve_def all_digits_def is_digit_def isArray_def
        isType_def isUndefined_def getProp_def)
  note defs = sort_stage_def isEmpty_def isUnknown_def isNull_def isUndefined_def isArray_def
      isObject_def isType_def getProp_def sort_pass_def groupBy_def r hash_null hash_zero
      Let_def sortBy_def array_sort_def sort_by_def sortBy_compare_def js_lt_def js_gt_def
  show "sort_stage h (Arr [Obj [(''a'', Null)], Obj [(''a'', Num (Fin 0))]])
       (Obj [(''a'', Num (Fin (- 1)))])
     = Inr (Arr [Obj [(''a'', Num (Fin 0))], Obj [(''a'', Null)]])"
    by (simp add: defs)
  show "sort_stage h (Arr [Obj [(''a'', Num (Fin 0))], Obj [(''a'', Null)]])
       (Obj [(''a'', Num (Fin (- 1)))])
     = Inr (Arr [Obj [(''a'', Null)], Obj [(''a'', Num (Fin 0))]])"
    by (simp add: defs)
qed

text \<open>
  C2 as stated fails when two values of a sort key are tied. Over the documents
  \<^verbatim>\<open>{a: null}\<close>, \<^verbatim>\<open>{a: 0}\<close>, whose keys have distinct hash codes, one \<^verbatim>\<open>$sort\<close> by
  \<^verbatim>\<open>{a: -1}\<close> returns the second document before the first, and a second one returns
  them in their first order again.
\<close>

theorem sort_twice_tie_counterexample:
  "aggregate example_host example_stages
       (Arr [Obj [(''a'', Null)], Obj [(''a'', Num (Fin 0))]])
       (Arr [Obj [(''$sort'', Obj [(''a'', Num (Fin (- 1)))])],
             Obj [(''$sort'', Obj [(''a'', Num (Fin (- 1)))])]])
     \<noteq> aggregate example_host example_stages
       (Arr [Obj [(''a'', Null)], Obj [(''a'', Num (Fin 0))]])
       (Arr [Obj [(''$sort'', Obj [(''a'', Num (Fin (- 1)))])]])"
  by (simp add: aggregate_sort_once aggregate_sort_twice sort_tie_stage)

text \<open>
  Ties break the equation when every direction is \<open>1\<close> too. By \<^verbatim>\<open>{k1: 1, k2: 1}\<close>,
  the documents \<^verbatim>\<open>{k1: 1, k2: null}\<close>, \<^verbatim>\<open>{k1: 1, k2: 0}\<close>, \<^verbatim>\<open>{k1: 0, k2: 0}\<close> are
  returned in the order third, first, second, and these in the order first, third,
  second: the tied values \<^verbatim>\<open>null\<close> and \<open>0\<close> of \<^verbatim>\<open>k2\<close> are ordered by their first
  occurrence, which the first run has changed.
\<close>

lemma sort_twice_tie_ascending:
  fixes A B C :: val
  defines "A \<equiv> Obj [(''k1'', Num (Fin 1)), (''k2'', Null)]"
    and "B \<equiv> Obj [(''k1'', Num (Fin 1)), (''k2'', Num (Fin 0))]"
    and "C \<equiv> Obj [(''k1'', Num (Fin 0)), (''k2'', Num (Fin 0))]"
  shows "sort_stage h (Arr [A, B, C]) (Obj [(''k1'', Num (Fin 1)), (''k2'', Num (Fin 1))])
       = Inr (Arr [C, A, B])"
    and "sort_stage h (Arr [C, A, B]) (Obj [(''k1'', Num (Fin 1)), (''k2'', Num (Fin 1))])
       = Inr (Arr [C, B, A])"
proof -
  have r: "resolve A ''k2'' False = Inr Null" "resolve B ''k2'' False = Inr (Num (Fin 0))"
    "resolve C ''k2'' False = Inr (Num (Fin 0))"
    "resolve A ''k1'' False = Inr (Num (Fin 1))" "resolve B ''k1'' False = Inr (Num (Fin 1))"
    "resolve C ''k1'' False = Inr (Num (Fin 0))"
    by (simp_all add: A_def B_def C_def resolve_def all_digits_def is_digit_def isArray_def
        isType_def isUndefined_def getProp_def)
  note defs = sort_pass_def groupBy_def r hash_null hash_zero hash_one
      Let_def sortBy_def array_sort_def sort_by_def sortBy_compare_def js_lt_def js_gt_def
  have p1: "sort_pass h ''k2'' (Num (Fin 1)) (Arr [A, B, C]) = Inr (Arr [A, B, C])"
    by (simp add: defs)
  have p2: "sort_pass h ''k1'' (Num (Fin 1)) (Arr [A, B, C]) = Inr (Arr [C, A, B])"
    by (simp add: defs)
  have p3: "sort_pass h ''k2'' (Num (Fin 1)) (Arr [C, A, B]) = Inr (Arr [C, B, A])"
    by (simp add: defs)
  have p4: "sort_pass h ''k1'' (Num (Fin 1)) (Arr [C, B, A]) = Inr (Arr [C, B, A])"
    by (simp add: defs)
  note stage = sort_stage_def isEmpty_def isUnknown_def isNull_def isUndefined_def isArray_def
      isObject_def isType_def getProp_def
  show "sort_stage h (Arr [A, B, C]) (Obj [(''k1'', Num (Fin 1)), (''k2'', Num (Fin 1))])
       = Inr (Arr [C, A, B])"
    by (simp add: stage p1 p2)
  show "sort_stage h (Arr [C, A, B]) (Obj [(''k1'', Num (Fin 1)), (''k2'', Num (Fin 1))])
       = Inr (Arr [C, B, A])"
    by (simp add: stage p3 p4)
qed

subsection \<open>Idempotence\<close>

text \<open>Hash codes of five strings: \<^verbatim>\<open>"Aa"\<close> and \<^verbatim>\<open>"BB"\<close> collide.\<close>

lemma hash_Aa: "hashcode h (Str ''Aa'') = ''548627407''"
  by (simp add: hashcode_def encode_def json_quote_def json_char_def hash_step_def
      int_str_def nat_str.simps digit_char_def)

lemma hash_BB: "hashcode h (Str ''BB'') = ''548627407''"
  by (simp add: hashcode_def encode_def json_quote_def json_char_def hash_step_def
      int_str_def nat_str.simps digit_char_def)

lemma hash_B: "hashcode h (Str ''B'') = ''1387682295''"
  by (simp add: hashcode_def encode_def json_quote_def json_char_def hash_step_def
      int_str_def nat_str.simps digit_char_def)

lemma hash_a: "hashcode h (Str ''a'') = ''-409269033''"
  by (simp add: hashcode_def encode_def json_quote_def json_char_def hash_step_def
      int_str_def nat_str.simps digit_char_def)

lemma hash_b: "hashcode h (Str ''b'') = ''-605782537''"
  by (simp add: hashcode_def encode_def json_quote_def json_char_def hash_step_def
      int_str_def nat_str.simps digit_char_def)

lemmas hashes = hash_Aa hash_BB hash_B hash_a hash_b

text \<open>
  C2, amended: \<^verbatim>\<open>$sort\<close> is idempotent over an array of documents when, for each
  sort key, the values of the key in the documents are strictly ordered by \<^verbatim>\<open><\<close>
  (\<^verbatim>\<open>undefined\<close> apart, no two distinct values are tied, and smaller is transitive) and
  have distinct hash codes. Then running \<^verbatim>\<open>[{$sort: S}, {$sort: S}]\<close> gives the
  result of running \<^verbatim>\<open>[{$sort: S}]\<close>, an error included. Nothing is said of values
  with equal hash codes.
\<close>

theorem sort_twice_strictly_ordered:
  assumes "\<forall>k\<in>set (sort_fields S). strictly_ordered h (sort_value k ` set xs)"
    and "\<forall>k\<in>set (sort_fields S). inj_on (hashcode h) (sort_value k ` set xs)"
  shows "aggregate h ext (Arr xs) (Arr [Obj [(''$sort'', S)], Obj [(''$sort'', S)]])
     = aggregate h ext (Arr xs) (Arr [Obj [(''$sort'', S)]])"
  unfolding aggregate_sort_once aggregate_sort_twice
  by (rule sort_stage_twice) (use assms in blast)+

text \<open>Strings are strictly ordered, and so are finite numbers and booleans.\<close>

lemma strictly_ordered_strings: "strictly_ordered h (Str ` A)"
  by (auto simp: strictly_ordered_def js_lt_def)

lemma strictly_ordered_numbers: "strictly_ordered h ((\<lambda>r. Num (Fin r)) ` A)"
  by (auto simp: strictly_ordered_def js_lt_def)

lemma strictly_ordered_booleans: "strictly_ordered h (Bool ` A)"
  by (auto simp: strictly_ordered_def js_lt_def)

lemma strictly_ordered_two_strings: "strictly_ordered h {Str s, Str t}"
  using strictly_ordered_strings [of h "{s, t}"] by simp

theorem sort_twice_strictly_ordered_witness:
  "aggregate example_host example_stages
       (Arr [Obj [(''k1'', Str ''b''), (''k2'', Str ''BB'')],
             Obj [(''k1'', Str ''b''), (''k2'', Str ''B'')],
             Obj [(''k1'', Str ''a''), (''k2'', Str ''B'')]])
       (Arr [Obj [(''$sort'', Obj [(''k1'', Num (Fin (- 1))), (''k2'', Num (Fin 1))])],
             Obj [(''$sort'', Obj [(''k1'', Num (Fin (- 1))), (''k2'', Num (Fin 1))])]])
     = aggregate example_host example_stages
       (Arr [Obj [(''k1'', Str ''b''), (''k2'', Str ''BB'')],
             Obj [(''k1'', Str ''b''), (''k2'', Str ''B'')],
             Obj [(''k1'', Str ''a''), (''k2'', Str ''B'')]])
       (Arr [Obj [(''$sort'', Obj [(''k1'', Num (Fin (- 1))), (''k2'', Num (Fin 1))])]])"
proof -
  have v: "sort_value ''k1'' (Obj [(''k1'', Str ''b''), (''k2'', Str ''BB'')]) = Str ''b''"
    "sort_value ''k1'' (Obj [(''k1'', Str ''b''), (''k2'', Str ''B'')]) = Str ''b''"
    "sort_value ''k1'' (Obj [(''k1'', Str ''a''), (''k2'', Str ''B'')]) = Str ''a''"
    "sort_value ''k2'' (Obj [(''k1'', Str ''b''), (''k2'', Str ''BB'')]) = Str ''BB''"
    "sort_value ''k2'' (Obj [(''k1'', Str ''b''), (''k2'', Str ''B'')]) = Str ''B''"
    "sort_value ''k2'' (Obj [(''k1'', Str ''a''), (''k2'', Str ''B'')]) = Str ''B''"
    by (simp_all add: sort_value_def resolve_def all_digits_def is_digit_def isArray_def
        isType_def isUndefined_def getProp_def)
  show ?thesis
    using sort_twice_strictly_ordered
      [of "Obj [(''k1'', Num (Fin (- 1))), (''k2'', Num (Fin 1))]" example_host
          "[Obj [(''k1'', Str ''b''), (''k2'', Str ''BB'')],
            Obj [(''k1'', Str ''b''), (''k2'', Str ''B'')],
            Obj [(''k1'', Str ''a''), (''k2'', Str ''B'')]]" example_stages]
    by (simp add: v strictly_ordered_two_strings hash_BB hash_B hash_a hash_b)
qed

subsection \<open>Values with equal hash codes\<close>

text \<open>The four steps of two runs of \<^verbatim>\<open>$sort\<close> with \<^verbatim>\<open>{k1: 1, k2: 1}\<close> over
  three documents. The documents with \<^verbatim>\<open>k2\<close> \<^verbatim>\<open>"BB"\<close> and \<^verbatim>\<open>"Aa"\<close> fall in one
  group, whose place is decided by whichever of them comes first.\<close>

lemma sort_collision_passes:
  fixes d1 d2 d3 :: val
  defines "d1 \<equiv> Obj [(''k1'', Str ''b''), (''k2'', Str ''BB'')]"
    and "d2 \<equiv> Obj [(''k1'', Str ''b''), (''k2'', Str ''B'')]"
    and "d3 \<equiv> Obj [(''k1'', Str ''a''), (''k2'', Str ''Aa'')]"
  shows "sort_pass h ''k2'' (Num (Fin 1)) (Arr [d1, d2, d3]) = Inr (Arr [d2, d1, d3])"
    and "sort_pass h ''k1'' (Num (Fin 1)) (Arr [d2, d1, d3]) = Inr (Arr [d3, d2, d1])"
    and "sort_pass h ''k2'' (Num (Fin 1)) (Arr [d3, d2, d1]) = Inr (Arr [d3, d1, d2])"
    and "sort_pass h ''k1'' (Num (Fin 1)) (Arr [d3, d1, d2]) = Inr (Arr [d3, d1, d2])"
proof -
  have r: "resolve d1 ''k2'' False = Inr (Str ''BB'')" "resolve d2 ''k2'' False = Inr (Str ''B'')"
    "resolve d3 ''k2'' False = Inr (Str ''Aa'')"
    "resolve d1 ''k1'' False = Inr (Str ''b'')" "resolve d2 ''k1'' False = Inr (Str ''b'')"
    "resolve d3 ''k1'' False = Inr (Str ''a'')"
    by (simp_all add: d1_def d2_def d3_def resolve_def all_digits_def is_digit_def isArray_def
        isType_def isUndefined_def getProp_def)
  note defs = sort_pass_def groupBy_def r hashes Let_def sortBy_def array_sort_def sort_by_def
      sortBy_compare_def js_lt_def js_gt_def
  show "sort_pass h ''k2'' (Num (Fin 1)) (Arr [d1, d2, d3]) = Inr (Arr [d2, d1, d3])"
    by (simp add: defs)
  show "sort_pass h ''k1'' (Num (Fin 1)) (Arr [d2, d1, d3]) = Inr (Arr [d3, d2, d1])"
    by (simp add: defs)
  show "sort_pass h ''k2'' (Num (Fin 1)) (Arr [d3, d2, d1]) = Inr (Arr [d3, d1, d2])"
    by (simp add: defs)
  show "sort_pass h ''k1'' (Num (Fin 1)) (Arr [d3, d1, d2]) = Inr (Arr [d3, d1, d2])"
    by (simp add: defs)
qed

lemma sort_collision_stage:
  "sort_stage h (Arr [Obj [(''k1'', Str ''b''), (''k2'', Str ''BB'')],
                      Obj [(''k1'', Str ''b''), (''k2'', Str ''B'')],
                      Obj [(''k1'', Str ''a''), (''k2'', Str ''Aa'')]])
       (Obj [(''k1'', Num (Fin 1)), (''k2'', Num (Fin 1))])
     = Inr (Arr [Obj [(''k1'', Str ''a''), (''k2'', Str ''Aa'')],
                 Obj [(''k1'', Str ''b''), (''k2'', Str ''B'')],
                 Obj [(''k1'', Str ''b''), (''k2'', Str ''BB'')]])"
  "sort_stage h (Arr [Obj [(''k1'', Str ''a''), (''k2'', Str ''Aa'')],
                      Obj [(''k1'', Str ''b''), (''k2'', Str ''B'')],
                      Obj [(''k1'', Str ''b''), (''k2'', Str ''BB'')]])
       (Obj [(''k1'', Num (Fin 1)), (''k2'', Num (Fin 1))])
     = Inr (Arr [Obj [(''k1'', Str ''a''), (''k2'', Str ''Aa'')],
                 Obj [(''k1'', Str ''b''), (''k2'', Str ''BB'')],
                 Obj [(''k1'', Str ''b''), (''k2'', Str ''B'')]])"
  by (simp_all add: sort_stage_def isEmpty_def isUnknown_def isNull_def isUndefined_def isArray_def
      isObject_def isType_def getProp_def sort_collision_passes)

text \<open>
  With two values of equal hash code the equation may fail: then \<^verbatim>\<open>groupBy\<close> puts
  the documents of both values in one group. Over the documents \<^verbatim>\<open>{k1:"b",k2:"BB"}\<close>,
  \<^verbatim>\<open>{k1:"b",k2:"B"}\<close>, \<^verbatim>\<open>{k1:"a",k2:"Aa"}\<close>, one \<^verbatim>\<open>$sort\<close> by
  \<^verbatim>\<open>{k1: 1, k2: 1}\<close> returns the third, second, first document, and a second one
  returns the third, first, second, which are no longer in the order of \<^verbatim>\<open>k2\<close>.
\<close>

lemma sort_twice_collision:
  "aggregate example_host example_stages
       (Arr [Obj [(''k1'', Str ''b''), (''k2'', Str ''BB'')],
             Obj [(''k1'', Str ''b''), (''k2'', Str ''B'')],
             Obj [(''k1'', Str ''a''), (''k2'', Str ''Aa'')]])
       (Arr [Obj [(''$sort'', Obj [(''k1'', Num (Fin 1)), (''k2'', Num (Fin 1))])],
             Obj [(''$sort'', Obj [(''k1'', Num (Fin 1)), (''k2'', Num (Fin 1))])]])
     \<noteq> aggregate example_host example_stages
       (Arr [Obj [(''k1'', Str ''b''), (''k2'', Str ''BB'')],
             Obj [(''k1'', Str ''b''), (''k2'', Str ''B'')],
             Obj [(''k1'', Str ''a''), (''k2'', Str ''Aa'')]])
       (Arr [Obj [(''$sort'', Obj [(''k1'', Num (Fin 1)), (''k2'', Num (Fin 1))])]])"
  by (simp add: aggregate_def Aggregator_run_def isArray_def isType_def ops_pipeline_def
      pipelineOperators_def getProp_def sort_collision_stage)

end
